theory Spec2Isabelle
  imports Complex_Main
begin

section \<open>The animation core of src/2026/fluent/animation_before.py\<close>

text \<open>
  Python floats are modelled as the reals of HOL: the statements about this first model
  are about the arithmetic the code writes down, not about the rounding of doubles; where
  a property turns on that rounding, the timing is modelled a second time with the
  rounding explicit. Python's unbounded integers are \<open>int\<close>, strings are \<open>string\<close>
  (characters up to U+00FF), and every exception the code can raise is a value of type
  \<open>error\<close>.
\<close>

subsection \<open>Data model\<close>

text \<open>
  Modelled from the spec: the module \<open>graphics\<close>, which declares \<open>ShapeData\<close>,
  \<open>Color\<close> and \<open>GraphicsRenderer\<close>, is not among the sources. A geometry is an ordered
  sequence of points, each a pair of real coordinates; a colour is the string the callers
  pass and \<open>Fade.apply\<close> slices and formats, \<open>#RRGGBB\<close>.
\<close>

type_synonym Point = "real \<times> real"
type_synonym ShapeData = "Point list"
type_synonym Color = string

datatype error = ZeroDivisionError | ValueError

text \<open>
  The four step classes with their fields: \<open>Move(dx, dy)\<close>, \<open>Rotate(angle)\<close>,
  \<open>Scale(factor)\<close> and \<open>Fade(brightness)\<close>.
\<close>

datatype AnimationStep =
    Move real real
  | Rotate real
  | Scale real
  | Fade int

subsection \<open>Helpers and Python built-ins\<close>

definition lerp :: "real \<Rightarrow> real \<Rightarrow> real \<Rightarrow> real" where
  "lerp a b t = a + (b - a) * t"

text \<open>\<open>math.radians\<close>.\<close>

definition radians :: "real \<Rightarrow> real" where
  "radians x = x * (pi / 180)"

text \<open>\<open>int(x)\<close> of a float: truncation towards zero.\<close>

definition py_trunc :: "real \<Rightarrow> int" where
  "py_trunc r = (if 0 \<le> r then \<lfloor>r\<rfloor> else \<lceil>r\<rceil>)"

text \<open>
  \<open>int(s, 16)\<close>: blanks around the number are skipped (the six ASCII blanks, and the
  next-line and no-break-space characters U+0085 and U+00A0), a sign and a prefix \<open>0x\<close>
  are accepted, digits may be separated by single underscores, and anything else raises
  \<open>ValueError\<close>.
\<close>

definition is_space :: "char \<Rightarrow> bool" where
  "is_space c =
     (c \<in> set [CHR 0x09, CHR 0x0A, CHR 0x0B, CHR 0x0C, CHR 0x0D, CHR 0x20, CHR 0x85, CHR 0xA0])"

definition hex_digit :: "char \<Rightarrow> nat option" where
  "hex_digit c =
     (let n = (of_char c :: nat) in
      if 48 \<le> n \<and> n \<le> 57 then Some (n - 48)
      else if 97 \<le> n \<and> n \<le> 102 then Some (n - 87)
      else if 65 \<le> n \<and> n \<le> 70 then Some (n - 55)
      else None)"

fun scan_digits :: "string \<Rightarrow> char \<Rightarrow> nat \<Rightarrow> error + (nat \<times> string)" where
  "scan_digits [] prev acc = (if prev = CHR ''_'' then Inl ValueError else Inr (acc, []))"
| "scan_digits (c # cs) prev acc =
     (case hex_digit c of
        Some d \<Rightarrow> scan_digits cs c (16 * acc + d)
      | None \<Rightarrow>
          if c = CHR ''_'' then
            (if prev = CHR ''_'' then Inl ValueError else scan_digits cs c acc)
          else if prev = CHR ''_'' then Inl ValueError
          else Inr (acc, c # cs))"

definition py_int16 :: "string \<Rightarrow> error + int" where
  "py_int16 s =
     (let s1 = dropWhile is_space s;
          neg = (case s1 of c # _ \<Rightarrow> c = CHR ''-'' | [] \<Rightarrow> False);
          s2 = (case s1 of c # r \<Rightarrow> if c = CHR ''+'' \<or> c = CHR ''-'' then r else s1
                | [] \<Rightarrow> s1);
          s3 = (case s2 of
                  c # x # r \<Rightarrow>
                    if c = CHR ''0'' \<and> (x = CHR ''x'' \<or> x = CHR ''X'')
                    then (case r of u # r' \<Rightarrow> if u = CHR ''_'' then r' else r | [] \<Rightarrow> r)
                    else s2
                | _ \<Rightarrow> s2)
      in case s3 of
           [] \<Rightarrow> Inl ValueError
         | c # _ \<Rightarrow>
             if hex_digit c = None then Inl ValueError
             else (case scan_digits s3 (CHR 0x00) 0 of
                     Inl e \<Rightarrow> Inl e
                   | Inr (v, rest) \<Rightarrow>
                       if dropWhile is_space rest \<noteq> [] then Inl ValueError
                       else Inr (if neg then - int v else int v)))"

text \<open>The format \<open>{v:02x}\<close>: lower-case hexadecimal, zero-padded to two characters.\<close>

definition hex_char :: "nat \<Rightarrow> char" where
  "hex_char d = ''0123456789abcdef'' ! d"

fun hex_of_nat :: "nat \<Rightarrow> string" where
  "hex_of_nat n =
     (if n < 16 then [hex_char n] else hex_of_nat (n div 16) @ [hex_char (n mod 16)])"

definition format_02x :: "int \<Rightarrow> string" where
  "format_02x v =
     (if v < 0 then CHR ''-'' # hex_of_nat (nat (- v))
      else let h = hex_of_nat (nat v) in if length h < 2 then CHR ''0'' # h else h)"

text \<open>\<open>max\<close> over a generator: \<open>ValueError\<close> when it is empty.\<close>

definition py_max :: "real list \<Rightarrow> error + real" where
  "py_max xs = (case xs of [] \<Rightarrow> Inl ValueError | x # rest \<Rightarrow> Inr (foldl max x rest))"

subsection \<open>The steps\<close>

definition Move_apply ::
  "real \<Rightarrow> real \<Rightarrow> ShapeData \<Rightarrow> Color \<Rightarrow> real \<Rightarrow> error + (ShapeData \<times> Color)" where
  "Move_apply dx dy shape color t =
     (let new_points = map (\<lambda>(x, y). (x + dx * t, y + dy * t)) shape
      in Inr (new_points, color))"

definition Rotate_apply ::
  "real \<Rightarrow> ShapeData \<Rightarrow> Color \<Rightarrow> real \<Rightarrow> error + (ShapeData \<times> Color)" where
  "Rotate_apply angle shape color t =
     (let theta = radians (angle * t) in
      if length shape = 0 then Inl ZeroDivisionError
      else
        let cx = sum_list (map fst shape) / real (length shape);
            cy = sum_list (map snd shape) / real (length shape);
            out = map (\<lambda>(x, y).
                    (cx + (x - cx) * cos theta - (y - cy) * sin theta,
                     cy + (x - cx) * sin theta + (y - cy) * cos theta)) shape
        in Inr (out, color))"

definition Scale_apply ::
  "real \<Rightarrow> ShapeData \<Rightarrow> Color \<Rightarrow> real \<Rightarrow> error + (ShapeData \<times> Color)" where
  "Scale_apply factor shape color t =
     (if length shape = 0 then Inl ZeroDivisionError
      else
        let cx = sum_list (map fst shape) / real (length shape);
            cy = sum_list (map snd shape) / real (length shape);
            s = lerp 1 factor t;
            new_points = map (\<lambda>(x, y). (cx + (x - cx) * s, cy + (y - cy) * s)) shape
        in Inr (new_points, color))"

definition Fade_apply ::
  "int \<Rightarrow> ShapeData \<Rightarrow> Color \<Rightarrow> real \<Rightarrow> error + (ShapeData \<times> Color)" where
  "Fade_apply brightness shape color t =
     (case py_int16 (take 2 (drop 1 color)) of
        Inl e \<Rightarrow> Inl e
      | Inr current_val \<Rightarrow>
          let new_val = py_trunc (lerp (real_of_int current_val) (real_of_int brightness) t);
              new_color = CHR ''#'' # format_02x new_val @ format_02x new_val @ format_02x new_val
          in Inr (shape, new_color))"

text \<open>The dispatch of \<open>step.apply(points, color, local_t)\<close> on the step's class.\<close>

fun apply_step ::
  "AnimationStep \<Rightarrow> ShapeData \<Rightarrow> Color \<Rightarrow> real \<Rightarrow> error + (ShapeData \<times> Color)" where
  "apply_step (Move dx dy) shape color t = Move_apply dx dy shape color t"
| "apply_step (Rotate angle) shape color t = Rotate_apply angle shape color t"
| "apply_step (Scale factor) shape color t = Scale_apply factor shape color t"
| "apply_step (Fade brightness) shape color t = Fade_apply brightness shape color t"

subsection \<open>The timeline and the shape\<close>

record Animation =
  steps :: "AnimationStep list"
  durations :: "real list"
  start_time :: real

record Shape =
  shape_id :: string
  points :: ShapeData
  color :: Color
  animation :: "Animation option"

text \<open>
  Modelled from the spec: \<open>renderer.render(shape_id, points, color)\<close> is synchronous,
  returns nothing the player looks at and has no way back into the resolution. The
  renderer is the list of the calls it has received, in order.
\<close>

type_synonym render_call = "string \<times> ShapeData \<times> Color"

text \<open>
  The constructor the dataclass generates stores its three arguments; the class has no
  \<open>__post_init__\<close>.
\<close>

definition Animation_init ::
  "AnimationStep list \<Rightarrow> real list \<Rightarrow> real \<Rightarrow> error + Animation" where
  "Animation_init st du start = Inr \<lparr>steps = st, durations = du, start_time = start\<rparr>"

definition duration :: "Animation \<Rightarrow> real" where
  "duration anim = sum_list (durations anim)"

definition end_time :: "Animation \<Rightarrow> real" where
  "end_time anim = start_time anim + duration anim"

subsection \<open>The scene player\<close>

text \<open>
  The inner loop of \<open>play_scene\<close> over \<open>zip(anim.steps, anim.durations)\<close>: \<open>continue\<close> on a
  duration that is not positive, \<open>break\<close> after a step still in progress.
\<close>

fun walk ::
  "(AnimationStep \<times> real) list \<Rightarrow> real \<Rightarrow> real \<Rightarrow> ShapeData \<Rightarrow> Color
     \<Rightarrow> error + (ShapeData \<times> Color)" where
  "walk [] t_anim time_cursor pts col = Inr (pts, col)"
| "walk ((step, d) # rest) t_anim time_cursor pts col =
     (if d \<le> 0 then walk rest t_anim time_cursor pts col
      else
        let local_t_raw = (t_anim - time_cursor) / d;
            local_t = max 0 (min 1 local_t_raw)
        in case apply_step step pts col local_t of
             Inl e \<Rightarrow> Inl e
           | Inr (pts', col') \<Rightarrow>
               if local_t < 1 then Inr (pts', col')
               else walk rest t_anim (time_cursor + d) pts' col')"

text \<open>What the body of the loop over the shapes computes for one active shape.\<close>

definition resolve :: "Shape \<Rightarrow> Animation \<Rightarrow> real \<Rightarrow> error + (ShapeData \<times> Color)" where
  "resolve shape anim now =
     (let t_anim = now - start_time anim
      in walk (zip (steps anim) (durations anim)) t_anim 0 (points shape) (color shape))"

text \<open>
  One pass of \<open>for shape in shapes\<close> at the instant \<open>now\<close>. The state is the flag
  \<open>finished\<close> and the calls the renderer has received; an exception leaves the loop with
  the calls made so far.
\<close>

fun play_shapes ::
  "Shape list \<Rightarrow> real \<Rightarrow> bool \<Rightarrow> render_call list \<Rightarrow> (error + bool) \<times> render_call list" where
  "play_shapes [] now finished calls = (Inr finished, calls)"
| "play_shapes (shape # rest) now finished calls =
     (case animation shape of
        None \<Rightarrow> play_shapes rest now finished calls
      | Some anim \<Rightarrow>
          if \<not> (start_time anim \<le> now \<and> now \<le> end_time anim)
          then play_shapes rest now finished calls
          else (case resolve shape anim now of
                  Inl e \<Rightarrow> (Inl e, calls)
                | Inr (pts, col) \<Rightarrow>
                    play_shapes rest now False (calls @ [(shape_id shape, pts, col)])))"

text \<open>
  The \<open>while True\<close> loop. The wall clock is an input: the list of the readings of
  \<open>time.time()\<close>, one for each iteration. \<open>Polling\<close> is the loop still running when the
  readings are used up.
\<close>

datatype status = Returned | Raised error | Polling

fun play_loop ::
  "Shape list \<Rightarrow> real \<Rightarrow> real \<Rightarrow> real list \<Rightarrow> render_call list \<Rightarrow> status \<times> render_call list" where
  "play_loop shapes global_end t0 [] calls = (Polling, calls)"
| "play_loop shapes global_end t0 (tick # ticks) calls =
     (let now = tick - t0
      in case play_shapes shapes now True calls of
           (Inl e, calls') \<Rightarrow> (Raised e, calls')
         | (Inr finished, calls') \<Rightarrow>
             if finished \<and> now \<ge> global_end then (Returned, calls')
             else play_loop shapes global_end t0 ticks calls')"

text \<open>\<open>play_scene(renderer, shapes)\<close>; the first reading of the clock is \<open>t0\<close>.\<close>

definition play_scene :: "Shape list \<Rightarrow> real list \<Rightarrow> status \<times> render_call list" where
  "play_scene shapes clock =
     (let animations = List.map_filter animation shapes
      in if animations = [] then (Returned, [])
         else (case py_max (map end_time animations) of
                 Inl e \<Rightarrow> (Raised e, [])
               | Inr global_end \<Rightarrow>
                   (case clock of
                      [] \<Rightarrow> (Polling, [])
                    | t0 # ticks \<Rightarrow> play_loop shapes global_end t0 ticks [])))"

subsection \<open>Notions used to state the properties\<close>

text \<open>
  An achromatic colour \<open>#vvvvvv\<close>, written with the two characters of one channel, and
  the lower-case hexadecimal digits, the ones \<open>{v:02x}\<close> prints.
\<close>

definition achromatic :: "char \<Rightarrow> char \<Rightarrow> Color" where
  "achromatic h1 h2 = CHR ''#'' # [h1, h2, h1, h2, h1, h2]"

definition is_lower_hex :: "char \<Rightarrow> bool" where
  "is_lower_hex c = (c \<in> set ''0123456789abcdef'')"

text \<open>The timeline \<open>Fade(0)\<close> over 1.0 s, starting at t = 0.\<close>

definition fade_scenario :: Animation where
  "fade_scenario = \<lparr>steps = [Fade 0], durations = [1], start_time = 0\<rparr>"

text \<open>
  The replay as the specification words it. \<open>schedule\<close> walks the pairs with the
  cumulative-offset cursor and lists which step is applied at which progress: a pair
  whose duration is not positive is skipped and leaves the cursor alone; every other
  step is applied at its raw progress clamped to [0, 1]; after the first step whose
  raw progress is below 1 the walk stops; otherwise the cursor advances by the
  duration. \<open>apply_all\<close> applies such a list in order, from a geometry and a colour.
\<close>

definition clamp :: "real \<Rightarrow> real \<Rightarrow> real \<Rightarrow> real" where
  "clamp x lo hi = (if x < lo then lo else if hi < x then hi else x)"

fun schedule :: "(AnimationStep \<times> real) list \<Rightarrow> real \<Rightarrow> real \<Rightarrow> (AnimationStep \<times> real) list" where
  "schedule [] t cursor = []"
| "schedule ((step, d) # rest) t cursor =
     (if d \<le> 0 then schedule rest t cursor
      else (step, clamp ((t - cursor) / d) 0 1)
           # (if (t - cursor) / d < 1 then [] else schedule rest t (cursor + d)))"

fun apply_all ::
  "(AnimationStep \<times> real) list \<Rightarrow> ShapeData \<times> Color \<Rightarrow> error + (ShapeData \<times> Color)" where
  "apply_all [] state = Inr state"
| "apply_all ((step, progress) # rest) state =
     (case apply_step step (fst state) (snd state) progress of
        Inl e \<Rightarrow> Inl e
      | Inr state' \<Rightarrow> apply_all rest state')"

definition replay :: "Shape \<Rightarrow> Animation \<Rightarrow> real \<Rightarrow> error + (ShapeData \<times> Color)" where
  "replay shape anim now =
     apply_all (schedule (zip (steps anim) (durations anim)) (now - start_time anim) 0)
       (points shape, color shape)"

text \<open>A shape is active at \<open>now\<close> when it has a timeline and \<open>now\<close> lies in its window.\<close>

definition active :: "Animation \<Rightarrow> real \<Rightarrow> bool" where
  "active anim now = (start_time anim \<le> now \<and> now \<le> end_time anim)"

definition active_shape :: "real \<Rightarrow> Shape \<Rightarrow> bool" where
  "active_shape now shape = (case animation shape of None \<Rightarrow> False | Some anim \<Rightarrow> active anim now)"

text \<open>A call the renderer received, as an identity and a successful outcome.\<close>

definition rendered :: "render_call \<Rightarrow> string \<times> (error + (ShapeData \<times> Color))" where
  "rendered call = (fst call, Inr (snd call))"

text \<open>
  What a frame at \<open>now\<close> is to hand to the renderer: for each active shape, in the order
  of the scene, its identity and the outcome of its replay.
\<close>

definition spec_frame ::
  "Shape list \<Rightarrow> real \<Rightarrow> (string \<times> (error + (ShapeData \<times> Color))) list" where
  "spec_frame shapes now =
     concat (map (\<lambda>shape. case animation shape of
                      None \<Rightarrow> []
                    | Some anim \<Rightarrow>
                        if active anim now then [(shape_id shape, replay shape anim now)] else [])
              shapes)"

text \<open>Two shapes with the disjoint active windows [0, 1] and [2, 3].\<close>

definition gap_scene :: "Shape list" where
  "gap_scene =
     [\<lparr>shape_id = ''first'', points = [(0, 0)], color = ''#444444'',
        animation = Some \<lparr>steps = [Move 10 0], durations = [1], start_time = 0\<rparr>\<rparr>,
      \<lparr>shape_id = ''second'', points = [(0, 0)], color = ''#888888'',
        animation = Some \<lparr>steps = [Move 0 10], durations = [1], start_time = 2\<rparr>\<rparr>]"

subsection \<open>The player on a store of objects\<close>

text \<open>
  What \<open>play_scene\<close> does to the objects it is given depends on which lists are shared:
  \<open>points = shape.points\<close> is a second name for the shape's own list, \<open>Fade.apply\<close>
  returns the list it received, the other steps build a new one, and \<open>Rotate.apply\<close>
  fills its new list with \<open>out.append\<close> while it iterates over the list it was given,
  which is another list. This second model keeps the lists of points and
  the \<open>Shape\<close> objects in a store and passes references. A reference is an address; the
  addresses below \<open>next_addr\<close> are the ones in use, and a new list takes the next one. The
  \<open>Animation\<close> of a shape is kept as a value: the player only iterates over
  its two lists.
\<close>

type_synonym addr = nat

record Shape_obj =
  obj_shape_id :: string
  obj_points :: addr
  obj_color :: Color
  obj_animation :: "Animation option"

record heap =
  objects :: "addr \<Rightarrow> Shape_obj"
  cells :: "addr \<Rightarrow> ShapeData"
  next_addr :: addr

text \<open>One call \<open>renderer.render(shape_id, points, color)\<close>, with the reference it passes.\<close>

type_synonym heap_call = "string \<times> addr \<times> Color"

definition alloc :: "ShapeData \<Rightarrow> heap \<Rightarrow> addr \<times> heap" where
  "alloc xs h =
     (next_addr h, h\<lparr>cells := (cells h)(next_addr h := xs), next_addr := Suc (next_addr h)\<rparr>)"

definition list_append :: "addr \<Rightarrow> Point \<Rightarrow> heap \<Rightarrow> heap" where
  "list_append a p h = h\<lparr>cells := (cells h)(a := cells h a @ [p])\<rparr>"

definition Move_apply_h ::
  "real \<Rightarrow> real \<Rightarrow> addr \<Rightarrow> Color \<Rightarrow> real \<Rightarrow> heap \<Rightarrow> (error + (addr \<times> Color)) \<times> heap" where
  "Move_apply_h dx dy shape col t h =
     (let (new_points, h') = alloc (map (\<lambda>(x, y). (x + dx * t, y + dy * t)) (cells h shape)) h
      in (Inr (new_points, col), h'))"

definition Rotate_apply_h ::
  "real \<Rightarrow> addr \<Rightarrow> Color \<Rightarrow> real \<Rightarrow> heap \<Rightarrow> (error + (addr \<times> Color)) \<times> heap" where
  "Rotate_apply_h angle shape col t h =
     (let theta = radians (angle * t) in
      if length (cells h shape) = 0 then (Inl ZeroDivisionError, h)
      else
        let cx = sum_list (map fst (cells h shape)) / real (length (cells h shape));
            cy = sum_list (map snd (cells h shape)) / real (length (cells h shape));
            (out, h1) = alloc [] h;
            h2 = fold (\<lambda>(x, y). list_append out
                         (cx + (x - cx) * cos theta - (y - cy) * sin theta,
                          cy + (x - cx) * sin theta + (y - cy) * cos theta))
                   (cells h shape) h1
        in (Inr (out, col), h2))"

definition Scale_apply_h ::
  "real \<Rightarrow> addr \<Rightarrow> Color \<Rightarrow> real \<Rightarrow> heap \<Rightarrow> (error + (addr \<times> Color)) \<times> heap" where
  "Scale_apply_h factor shape col t h =
     (if length (cells h shape) = 0 then (Inl ZeroDivisionError, h)
      else
        let cx = sum_list (map fst (cells h shape)) / real (length (cells h shape));
            cy = sum_list (map snd (cells h shape)) / real (length (cells h shape));
            s = lerp 1 factor t;
            (new_points, h') =
              alloc (map (\<lambda>(x, y). (cx + (x - cx) * s, cy + (y - cy) * s)) (cells h shape)) h
        in (Inr (new_points, col), h'))"

definition Fade_apply_h ::
  "int \<Rightarrow> addr \<Rightarrow> Color \<Rightarrow> real \<Rightarrow> heap \<Rightarrow> (error + (addr \<times> Color)) \<times> heap" where
  "Fade_apply_h brightness shape col t h =
     (case py_int16 (take 2 (drop 1 col)) of
        Inl e \<Rightarrow> (Inl e, h)
      | Inr current_val \<Rightarrow>
          let new_val = py_trunc (lerp (real_of_int current_val) (real_of_int brightness) t);
              new_color = CHR ''#'' # format_02x new_val @ format_02x new_val @ format_02x new_val
          in (Inr (shape, new_color), h))"

fun apply_step_h ::
  "AnimationStep \<Rightarrow> addr \<Rightarrow> Color \<Rightarrow> real \<Rightarrow> heap \<Rightarrow> (error + (addr \<times> Color)) \<times> heap" where
  "apply_step_h (Move dx dy) shape col t h = Move_apply_h dx dy shape col t h"
| "apply_step_h (Rotate angle) shape col t h = Rotate_apply_h angle shape col t h"
| "apply_step_h (Scale factor) shape col t h = Scale_apply_h factor shape col t h"
| "apply_step_h (Fade brightness) shape col t h = Fade_apply_h brightness shape col t h"

fun walk_h ::
  "(AnimationStep \<times> real) list \<Rightarrow> real \<Rightarrow> real \<Rightarrow> addr \<Rightarrow> Color \<Rightarrow> heap
     \<Rightarrow> (error + (addr \<times> Color)) \<times> heap" where
  "walk_h [] t_anim time_cursor pts col h = (Inr (pts, col), h)"
| "walk_h ((step, d) # rest) t_anim time_cursor pts col h =
     (if d \<le> 0 then walk_h rest t_anim time_cursor pts col h
      else
        let local_t_raw = (t_anim - time_cursor) / d;
            local_t = max 0 (min 1 local_t_raw)
        in case apply_step_h step pts col local_t h of
             (Inl e, h') \<Rightarrow> (Inl e, h')
           | (Inr (pts', col'), h') \<Rightarrow>
               if local_t < 1 then (Inr (pts', col'), h')
               else walk_h rest t_anim (time_cursor + d) pts' col' h')"

fun play_shapes_h ::
  "addr list \<Rightarrow> real \<Rightarrow> bool \<Rightarrow> heap_call list \<Rightarrow> heap
     \<Rightarrow> (error + bool) \<times> heap_call list \<times> heap" where
  "play_shapes_h [] now finished calls h = (Inr finished, calls, h)"
| "play_shapes_h (shape # rest) now finished calls h =
     (case obj_animation (objects h shape) of
        None \<Rightarrow> play_shapes_h rest now finished calls h
      | Some anim \<Rightarrow>
          if \<not> (start_time anim \<le> now \<and> now \<le> end_time anim)
          then play_shapes_h rest now finished calls h
          else (case walk_h (zip (steps anim) (durations anim)) (now - start_time anim) 0
                       (obj_points (objects h shape)) (obj_color (objects h shape)) h of
                  (Inl e, h') \<Rightarrow> (Inl e, calls, h')
                | (Inr (pts, col), h') \<Rightarrow>
                    play_shapes_h rest now False
                      (calls @ [(obj_shape_id (objects h' shape), pts, col)]) h'))"

fun play_loop_h ::
  "addr list \<Rightarrow> real \<Rightarrow> real \<Rightarrow> real list \<Rightarrow> heap_call list \<Rightarrow> heap
     \<Rightarrow> status \<times> heap_call list \<times> heap" where
  "play_loop_h shapes global_end t0 [] calls h = (Polling, calls, h)"
| "play_loop_h shapes global_end t0 (tick # ticks) calls h =
     (let now = tick - t0
      in case play_shapes_h shapes now True calls h of
           (Inl e, calls', h') \<Rightarrow> (Raised e, calls', h')
         | (Inr finished, calls', h') \<Rightarrow>
             if finished \<and> now \<ge> global_end then (Returned, calls', h')
             else play_loop_h shapes global_end t0 ticks calls' h')"

definition play_scene_h :: "addr list \<Rightarrow> real list \<Rightarrow> heap \<Rightarrow> status \<times> heap_call list \<times> heap" where
  "play_scene_h shapes clock h =
     (let animations = List.map_filter (\<lambda>s. obj_animation (objects h s)) shapes
      in if animations = [] then (Returned, [], h)
         else (case py_max (map end_time animations) of
                 Inl e \<Rightarrow> (Raised e, [], h)
               | Inr global_end \<Rightarrow>
                   (case clock of
                      [] \<Rightarrow> (Polling, [], h)
                    | t0 # ticks \<Rightarrow> play_loop_h shapes global_end t0 ticks [] h)))"

text \<open>
  Reading the store: the shape at an address as the value the first model works on, a
  call with its list read, and a store that has only grown: the objects and every list
  in use are as they were.
\<close>

definition shape_of :: "heap \<Rightarrow> addr \<Rightarrow> Shape" where
  "shape_of h a =
     \<lparr>shape_id = obj_shape_id (objects h a), points = cells h (obj_points (objects h a)),
      color = obj_color (objects h a), animation = obj_animation (objects h a)\<rparr>"

definition call_of :: "heap \<Rightarrow> heap_call \<Rightarrow> render_call" where
  "call_of h call = (fst call, cells h (fst (snd call)), snd (snd call))"

definition result_of :: "heap \<Rightarrow> error + (addr \<times> Color) \<Rightarrow> error + (ShapeData \<times> Color)" where
  "result_of h r = (case r of Inl e \<Rightarrow> Inl e | Inr (a, col) \<Rightarrow> Inr (cells h a, col))"

definition result_allocated :: "heap \<Rightarrow> error + (addr \<times> Color) \<Rightarrow> bool" where
  "result_allocated h r = (case r of Inl e \<Rightarrow> True | Inr (a, col) \<Rightarrow> a < next_addr h)"

definition heap_extends :: "heap \<Rightarrow> heap \<Rightarrow> bool" where
  "heap_extends h h' =
     (objects h' = objects h \<and> next_addr h \<le> next_addr h'
      \<and> (\<forall>a. a < next_addr h \<longrightarrow> cells h' a = cells h a))"

text \<open>
  A store with two shapes: a segment that moves, and a dot that only fades. Their lists
  of points are at the addresses 0 and 1.
\<close>

definition demo_objects :: "addr \<Rightarrow> Shape_obj" where
  "demo_objects a =
     (if a = 0 then
        \<lparr>obj_shape_id = ''segment'', obj_points = 0, obj_color = ''#ffffff'',
         obj_animation = Some \<lparr>steps = [Move 10 0], durations = [1], start_time = 0\<rparr>\<rparr>
      else if a = 1 then
        \<lparr>obj_shape_id = ''dot'', obj_points = 1, obj_color = ''#ffffff'',
         obj_animation = Some \<lparr>steps = [Fade 0], durations = [1], start_time = 0\<rparr>\<rparr>
      else \<lparr>obj_shape_id = [], obj_points = 0, obj_color = [], obj_animation = None\<rparr>)"

definition demo_cells :: "addr \<Rightarrow> ShapeData" where
  "demo_cells a = (if a = 0 then [(0, 0), (10, 0)] else if a = 1 then [(1, 1)] else [])"

definition demo_heap :: heap where
  "demo_heap = \<lparr>objects = demo_objects, cells = demo_cells, next_addr = 2\<rparr>"

text \<open>
  Where the list of a call comes from: it is the base list of a shape of the scene, or a
  list created since the store was \<open>h\<close>.
\<close>

definition own_or_new :: "heap \<Rightarrow> addr list \<Rightarrow> heap_call \<Rightarrow> bool" where
  "own_or_new h scene call =
     (fst (snd call) \<in> set (map (\<lambda>sa. obj_points (objects h sa)) scene)
      \<or> next_addr h \<le> fst (snd call))"

subsection \<open>The timing arithmetic in floating point\<close>

text \<open>
  The instants and durations of the code are doubles, and each sum, difference and
  quotient of two of them is rounded to a double. Whether a step has reached progress 1.0
  at a given instant can turn on that rounding, so the timing of the player is written a
  second time with the rounding made explicit: \<open>rnd\<close> maps the exact result of an
  operation to the double the machine keeps. These are \<open>Animation.duration\<close>,
  \<open>Animation.end_time\<close> and the inner loop of \<open>play_scene\<close> again, operation by operation.
  \<open>sum\<close> adds from the left (newer interpreters carry a compensation term along, which
  is zero as long as no partial sum is rounded). With no rounding at all they are the
  definitions above.
\<close>

definition duration_fl :: "(real \<Rightarrow> real) \<Rightarrow> Animation \<Rightarrow> real" where
  "duration_fl rnd anim = foldl (\<lambda>acc d. rnd (acc + d)) 0 (durations anim)"

definition end_time_fl :: "(real \<Rightarrow> real) \<Rightarrow> Animation \<Rightarrow> real" where
  "end_time_fl rnd anim = rnd (start_time anim + duration_fl rnd anim)"

fun walk_fl ::
  "(real \<Rightarrow> real) \<Rightarrow> (AnimationStep \<times> real) list \<Rightarrow> real \<Rightarrow> real \<Rightarrow> ShapeData \<Rightarrow> Color
     \<Rightarrow> error + (ShapeData \<times> Color)" where
  "walk_fl rnd [] t_anim time_cursor pts col = Inr (pts, col)"
| "walk_fl rnd ((step, d) # rest) t_anim time_cursor pts col =
     (if d \<le> 0 then walk_fl rnd rest t_anim time_cursor pts col
      else
        let local_t_raw = rnd (rnd (t_anim - time_cursor) / d);
            local_t = max 0 (min 1 local_t_raw)
        in case apply_step step pts col local_t of
             Inl e \<Rightarrow> Inl e
           | Inr (pts', col') \<Rightarrow>
               if local_t < 1 then Inr (pts', col')
               else walk_fl rnd rest t_anim (rnd (time_cursor + d)) pts' col')"

definition resolve_fl ::
  "(real \<Rightarrow> real) \<Rightarrow> Shape \<Rightarrow> Animation \<Rightarrow> real \<Rightarrow> error + (ShapeData \<times> Color)" where
  "resolve_fl rnd shape anim now =
     (let t_anim = rnd (now - start_time anim)
      in walk_fl rnd (zip (steps anim) (durations anim)) t_anim 0 (points shape) (color shape))"

text \<open>
  The sums of a list of durations, added one after the other onto \<open>acc\<close>, are exact: no
  addition is rounded.
\<close>

fun exact_from :: "(real \<Rightarrow> real) \<Rightarrow> real \<Rightarrow> real list \<Rightarrow> bool" where
  "exact_from rnd acc [] = True"
| "exact_from rnd acc (d # ds) = (rnd (acc + d) = acc + d \<and> exact_from rnd (acc + d) ds)"

text \<open>A rounding to work an example with: to the nearest multiple of 1/4.\<close>

definition round_quarter :: "real \<Rightarrow> real" where
  "round_quarter x = real_of_int \<lfloor>4 * x + 1 / 2\<rfloor> / 4"

text \<open>
  A rounding with two precisions, as doubles have many: down to a multiple of 1/4 below
  1, down to a multiple of 1/2 from 1 on.
\<close>

definition round_coarse :: "real \<Rightarrow> real" where
  "round_coarse x = (if x < 1 then real_of_int \<lfloor>4 * x\<rfloor> / 4 else real_of_int \<lfloor>2 * x\<rfloor> / 2)"

section \<open>Properties\<close>

subsection \<open>Arithmetic, parsing and formatting\<close>

lemma lerp_0: "lerp a b 0 = a" and lerp_1: "lerp a b 1 = b"
  by (simp_all add: lerp_def)

lemma py_trunc_of_int: "py_trunc (real_of_int n) = n"
  by (simp add: py_trunc_def)

lemma py_trunc_of_nat: "py_trunc (real n) = int n"
  by (simp add: py_trunc_def)

lemma hex_digit_facts:
  assumes "hex_digit c = Some d"
  shows "d < 16" and "\<not> is_space c" and "c \<noteq> CHR ''+''" and "c \<noteq> CHR ''-''"
    and "c \<noteq> CHR ''_''" and "c \<noteq> CHR ''x''" and "c \<noteq> CHR ''X''"
  using assms by (auto simp: hex_digit_def is_space_def Let_def split: if_splits)

lemma py_int16_two_digits:
  assumes "hex_digit h1 = Some d1" and "hex_digit h2 = Some d2"
  shows "py_int16 [h1, h2] = Inr (int (16 * d1 + d2))"
  using assms hex_digit_facts[OF assms(1)] hex_digit_facts[OF assms(2)]
  by (simp add: py_int16_def)

lemma hex_of_nat_two: "16 \<le> n \<Longrightarrow> n < 256 \<Longrightarrow> hex_of_nat n = [hex_char (n div 16), hex_char (n mod 16)]"
  by (subst hex_of_nat.simps) (simp add: less_mult_imp_div_less)

lemma format_02x_byte:
  assumes "0 \<le> v" and "v \<le> 255"
  shows "format_02x v = [hex_char (nat v div 16), hex_char (nat v mod 16)]"
proof (cases "nat v < 16")
  case True
  then show ?thesis using assms by (simp add: format_02x_def hex_char_def)
next
  case False
  with assms have "16 \<le> nat v" "nat v < 256" by auto
  then show ?thesis using assms by (simp add: format_02x_def hex_of_nat_two del: hex_of_nat.simps)
qed

lemma format_02x_digits:
  assumes "d1 < 16" and "d2 < 16"
  shows "format_02x (int (16 * d1 + d2)) = [hex_char d1, hex_char d2]"
proof -
  have "nat (int (16 * d1 + d2)) = 16 * d1 + d2" by (rule nat_int)
  moreover have "int (16 * d1 + d2) \<le> 255" using assms by simp
  moreover have "0 \<le> int (16 * d1 + d2)" by simp
  ultimately have "format_02x (int (16 * d1 + d2)) =
      [hex_char ((16 * d1 + d2) div 16), hex_char ((16 * d1 + d2) mod 16)]"
    using format_02x_byte[of "int (16 * d1 + d2)"] by simp
  then show ?thesis using assms by simp
qed

lemma hex_digit_hex_char: "d < 16 \<Longrightarrow> hex_digit (hex_char d) = Some d"
proof -
  assume "d < 16"
  then have "d = 0 \<or> d = 1 \<or> d = 2 \<or> d = 3 \<or> d = 4 \<or> d = 5 \<or> d = 6 \<or> d = 7 \<or> d = 8
      \<or> d = 9 \<or> d = 10 \<or> d = 11 \<or> d = 12 \<or> d = 13 \<or> d = 14 \<or> d = 15"
    by arith
  then show ?thesis
    by (elim disjE) (simp_all add: hex_char_def hex_digit_def)
qed

lemma hex_char_lower: "is_lower_hex c \<Longrightarrow> hex_digit c = Some d \<Longrightarrow> hex_char d = c"
  by (auto simp: is_lower_hex_def hex_digit_def hex_char_def)

lemma is_lower_hex_digit: "is_lower_hex c \<Longrightarrow> \<exists>d. hex_digit c = Some d"
  by (auto simp: is_lower_hex_def hex_digit_def)

subsection \<open>The steps at progress 0\<close>

lemma Fade_apply_digits:
  assumes "hex_digit h1 = Some d1" and "hex_digit h2 = Some d2"
  shows "Fade_apply b g (CHR ''#'' # h1 # h2 # rest) t =
           (let v = format_02x (py_trunc (lerp (real (16 * d1 + d2)) (real_of_int b) t))
            in Inr (g, CHR ''#'' # v @ v @ v))"
  using py_int16_two_digits[OF assms] by (simp add: Fade_apply_def Let_def)

lemma Move_apply_0: "Move_apply dx dy g c 0 = Inr (g, c)"
  by (simp add: Move_apply_def split_def)

lemma Rotate_apply_0: "g \<noteq> [] \<Longrightarrow> Rotate_apply a g c 0 = Inr (g, c)"
  by (simp add: Rotate_apply_def radians_def split_def Let_def)

lemma Scale_apply_0: "g \<noteq> [] \<Longrightarrow> Scale_apply f g c 0 = Inr (g, c)"
  by (simp add: Scale_apply_def lerp_0 split_def Let_def)

lemma Fade_apply_0:
  assumes "hex_digit h1 = Some d1" and "hex_digit h2 = Some d2"
  shows "Fade_apply b g (achromatic h1 h2) 0 = Inr (g, achromatic (hex_char d1) (hex_char d2))"
  using hex_digit_facts(1)[OF assms(1)] hex_digit_facts(1)[OF assms(2)]
  unfolding achromatic_def
  by (simp add: Fade_apply_digits[OF assms] lerp_0 py_trunc_of_nat format_02x_digits
      del: of_nat_add of_nat_mult)


subsection \<open>The timeline\<close>

lemma walk_zip_take:
  "walk (zip st du) t cur pts col =
   walk (zip (take (min (length st) (length du)) st) (take (min (length st) (length du)) du))
     t cur pts col"
proof -
  let ?n = "min (length st) (length du)"
  have "zip (take ?n st) (take ?n du) = take ?n (zip st du)"
    by (simp add: take_zip)
  also have "\<dots> = zip st du"
    by simp
  finally show ?thesis by simp
qed

text \<open>
  Claim C3 says that \<open>Animation.duration\<close> counts a step of duration \<open>\<le> 0\<close> as zero
  length, so that a timeline with a negative duration lasts the sum of its positive
  durations. The property is a plain \<open>sum(self.durations)\<close>: on the durations
  \<open>[1.0, -0.5]\<close> it is \<open>0.5\<close> where the sum of the positive durations is \<open>1.0\<close>. The
  walk of \<open>play_scene\<close> does skip the negative duration without moving its cursor, so the
  shape stops being active at \<open>end_time = 0.5\<close>, with its first step half done.
\<close>

theorem C3_duration_counts_negative:
  "duration \<lparr>steps = [Move 10 0, Move 0 10], durations = [1, - (1 / 2)], start_time = 0\<rparr> = 1 / 2
   \<and> sum_list (filter (\<lambda>d. 0 < d) [1, - (1 / 2) :: real]) = 1
   \<and> end_time \<lparr>steps = [Move 10 0, Move 0 10], durations = [1, - (1 / 2)], start_time = 0\<rparr> = 1 / 2
   \<and> resolve \<lparr>shape_id = ''sq'', points = [(0, 0)], color = ''#444444'', animation = None\<rparr>
         \<lparr>steps = [Move 10 0, Move 0 10], durations = [1, - (1 / 2)], start_time = 0\<rparr> (1 / 2)
       = Inr ([(5, 0)], ''#444444'')"
  by (simp add: duration_def end_time_def resolve_def Move_apply_def)

text \<open>
  Claim C7 says that an \<open>Animation\<close> whose lists of steps and of durations differ in
  length is rejected at construction. It is not: two steps with one duration are
  stored as they are, and the replay resolves them.
\<close>

theorem C7_mismatch_accepted:
  "length [Move 10 0, Move 0 10] \<noteq> length [1 :: real]
   \<and> Animation_init [Move 10 0, Move 0 10] [1] 0
       = Inr \<lparr>steps = [Move 10 0, Move 0 10], durations = [1], start_time = 0\<rparr>
   \<and> resolve \<lparr>shape_id = ''sq'', points = [(0, 0)], color = ''#444444'', animation = None\<rparr>
         \<lparr>steps = [Move 10 0, Move 0 10], durations = [1], start_time = 0\<rparr> 1
       = Inr ([(10, 0)], ''#444444'')"
  by (simp add: Animation_init_def resolve_def Move_apply_def)

text \<open>
  Claim C7, amended: the constructor accepts any two lists; the replay pairs them with
  \<open>zip\<close>, so it sees both lists cut to the length of the shorter one, while
  \<open>duration\<close> still sums every duration.
\<close>

theorem C7_mismatch_truncated_by_zip:
  "Animation_init st du s = Inr \<lparr>steps = st, durations = du, start_time = s\<rparr>
   \<and> resolve shape \<lparr>steps = st, durations = du, start_time = s\<rparr> now
       = resolve shape \<lparr>steps = take (min (length st) (length du)) st,
                         durations = take (min (length st) (length du)) du,
                         start_time = s\<rparr> now
   \<and> duration \<lparr>steps = st, durations = du, start_time = s\<rparr> = sum_list du"
  using walk_zip_take[of st du] by (simp add: Animation_init_def resolve_def duration_def)

text \<open>
  Claim C5 says that \<open>apply(g, c, 0)\<close> returns its input for every step and every
  geometry. On the empty geometry \<open>Rotate\<close> and \<open>Scale\<close> return nothing: the centroid
  divides by \<open>len(shape) = 0\<close> and raises \<open>ZeroDivisionError\<close>.
\<close>

theorem C5_rotate_scale_empty_geometry:
  "apply_step (Rotate 90) [] ''#444444'' 0 = Inl ZeroDivisionError
   \<and> apply_step (Scale 2) [] ''#444444'' 0 = Inl ZeroDivisionError
   \<and> apply_step (Rotate 90) [] ''#444444'' 0 \<noteq> Inr ([], ''#444444'')"
  by (simp add: Rotate_apply_def Scale_apply_def)

text \<open>
  Claim C5, amended: at progress 0, \<open>Move\<close> returns its input on every geometry,
  \<open>Rotate\<close> and \<open>Scale\<close> return it on every geometry that has a point, and \<open>Fade\<close>
  on an achromatic colour returns the geometry and the colour of the same channel value,
  printed with lower-case digits: the very same string when the input is lower-case.
\<close>

theorem C5_progress_zero_identity:
  "apply_step (Move dx dy) g c 0 = Inr (g, c)
   \<and> (g \<noteq> [] \<longrightarrow> apply_step (Rotate a) g c 0 = Inr (g, c))
   \<and> (g \<noteq> [] \<longrightarrow> apply_step (Scale f) g c 0 = Inr (g, c))
   \<and> (hex_digit h1 = Some d1 \<and> hex_digit h2 = Some d2 \<longrightarrow>
        apply_step (Fade b) g (achromatic h1 h2) 0
          = Inr (g, achromatic (hex_char d1) (hex_char d2))
        \<and> hex_digit (hex_char d1) = Some d1 \<and> hex_digit (hex_char d2) = Some d2)
   \<and> (is_lower_hex h1 \<and> is_lower_hex h2 \<longrightarrow>
        apply_step (Fade b) g (achromatic h1 h2) 0 = Inr (g, achromatic h1 h2))"
proof (intro conjI impI)
  show "apply_step (Move dx dy) g c 0 = Inr (g, c)" by (simp add: Move_apply_0)
  show "g \<noteq> [] \<Longrightarrow> apply_step (Rotate a) g c 0 = Inr (g, c)" by (simp add: Rotate_apply_0)
  show "g \<noteq> [] \<Longrightarrow> apply_step (Scale f) g c 0 = Inr (g, c)" by (simp add: Scale_apply_0)
next
  assume h: "hex_digit h1 = Some d1 \<and> hex_digit h2 = Some d2"
  then show "apply_step (Fade b) g (achromatic h1 h2) 0
      = Inr (g, achromatic (hex_char d1) (hex_char d2))"
    by (simp add: Fade_apply_0)
  from h show "hex_digit (hex_char d1) = Some d1"
    using hex_digit_facts(1)[of h1 d1] by (simp add: hex_digit_hex_char)
  from h show "hex_digit (hex_char d2) = Some d2"
    using hex_digit_facts(1)[of h2 d2] by (simp add: hex_digit_hex_char)
next
  assume l: "is_lower_hex h1 \<and> is_lower_hex h2"
  then obtain d1 d2 where d: "hex_digit h1 = Some d1" "hex_digit h2 = Some d2"
    using is_lower_hex_digit by blast
  with l have "hex_char d1 = h1" "hex_char d2 = h2" by (simp_all add: hex_char_lower)
  with d show "apply_step (Fade b) g (achromatic h1 h2) 0 = Inr (g, achromatic h1 h2)"
    using Fade_apply_0[OF d] by simp
qed

text \<open>Claim C5, witness: the four steps at progress 0 on the square of \<open>main_before.py\<close>.\<close>

theorem C5_progress_zero_identity_witness:
  "apply_step (Move 200 0) [(250, 200), (350, 200), (350, 300), (250, 300)] ''#444444'' 0
     = Inr ([(250, 200), (350, 200), (350, 300), (250, 300)], ''#444444'')
   \<and> apply_step (Rotate 60) [(250, 200), (350, 200), (350, 300), (250, 300)] ''#444444'' 0
     = Inr ([(250, 200), (350, 200), (350, 300), (250, 300)], ''#444444'')
   \<and> apply_step (Scale (13 / 10)) [(250, 200), (350, 200), (350, 300), (250, 300)] ''#444444'' 0
     = Inr ([(250, 200), (350, 200), (350, 300), (250, 300)], ''#444444'')
   \<and> apply_step (Fade 200) [(250, 200), (350, 200), (350, 300), (250, 300)] ''#C8C8C8'' 0
     = Inr ([(250, 200), (350, 200), (350, 300), (250, 300)], ''#c8c8c8'')
   \<and> apply_step (Fade 200) [(250, 200), (350, 200), (350, 300), (250, 300)] ''#444444'' 0
     = Inr ([(250, 200), (350, 200), (350, 300), (250, 300)], ''#444444'')"
  using C5_progress_zero_identity[of 200 0 "[(250, 200), (350, 200), (350, 300), (250, 300)]"
      "''#444444''" 60 "13 / 10" "CHR ''C''" 12 "CHR ''8''" 8 200]
    C5_progress_zero_identity[of 200 0 "[(250, 200), (350, 200), (350, 300), (250, 300)]"
      "''#444444''" 60 "13 / 10" "CHR ''4''" 4 "CHR ''4''" 4 200]
  by (simp add: achromatic_def hex_digit_def hex_char_def is_lower_hex_def)

subsection \<open>Fade\<close>

lemma lerp_convex: "lerp a b t = (1 - t) * a + t * b"
  by (simp add: lerp_def algebra_simps)

lemma lerp_bounds:
  assumes "lo \<le> a" "a \<le> hi" "lo \<le> b" "b \<le> hi" "0 \<le> t" "t \<le> 1"
  shows "lo \<le> lerp a b t" and "lerp a b t \<le> hi"
proof -
  have "(1 - t) * lo \<le> (1 - t) * a" "t * lo \<le> t * b"
    using assms by (simp_all add: mult_left_mono)
  then have "(1 - t) * lo + t * lo \<le> lerp a b t"
    unfolding lerp_convex by linarith
  then show "lo \<le> lerp a b t" by (simp add: algebra_simps)
  have "(1 - t) * a \<le> (1 - t) * hi" "t * b \<le> t * hi"
    using assms by (simp_all add: mult_left_mono)
  then have "lerp a b t \<le> (1 - t) * hi + t * hi"
    unfolding lerp_convex by linarith
  then show "lerp a b t \<le> hi" by (simp add: algebra_simps)
qed

lemma py_trunc_bounds:
  assumes "0 \<le> r" and "r \<le> real_of_int n"
  shows "0 \<le> py_trunc r" and "py_trunc r \<le> n"
  using assms by (simp_all add: py_trunc_def floor_le_iff)

lemma is_lower_hex_hex_char: "d < 16 \<Longrightarrow> is_lower_hex (hex_char d)"
proof -
  assume "d < 16"
  then have "d = 0 \<or> d = 1 \<or> d = 2 \<or> d = 3 \<or> d = 4 \<or> d = 5 \<or> d = 6 \<or> d = 7 \<or> d = 8
      \<or> d = 9 \<or> d = 10 \<or> d = 11 \<or> d = 12 \<or> d = 13 \<or> d = 14 \<or> d = 15"
    by arith
  then show ?thesis
    by (elim disjE) (simp_all add: hex_char_def is_lower_hex_def)
qed

lemma format_02x_byte_form:
  assumes "0 \<le> v" and "v \<le> 255"
  shows "length (format_02x v) = 2" and "list_all is_lower_hex (format_02x v)"
proof -
  have "nat v div 16 < 16" using assms by (simp add: less_mult_imp_div_less)
  then show "length (format_02x v) = 2" and "list_all is_lower_hex (format_02x v)"
    using assms by (simp_all add: format_02x_byte is_lower_hex_hex_char)
qed

lemma Fade_apply_value:
  assumes "py_int16 (take 2 (drop 1 c)) = Inr cur"
  shows "Fade_apply b g c t =
           (let v = format_02x (py_trunc (lerp (real_of_int cur) (real_of_int b) t))
            in Inr (g, CHR ''#'' # v @ v @ v))"
  using assms by (simp add: Fade_apply_def Let_def)

text \<open>
  Claim C10: on a colour \<open>#RRGGBB\<close>, \<open>Fade.apply\<close> reads the two characters of the red
  channel and nothing else: whatever follows them (\<open>gb\<close>, \<open>gb'\<close>) does not change the
  result. The colour returned is \<open>#\<close> followed by three copies of one string \<open>v\<close>, the
  new value printed by \<open>{v:02x}\<close>; for a target brightness in 0..255 and a progress in
  [0, 1], \<open>v\<close> is two lower-case hexadecimal digits.
\<close>

theorem C10_fade_reads_red_channel:
  "hex_digit r1 = Some d1 \<and> hex_digit r2 = Some d2 \<longrightarrow>
     (let v = format_02x (py_trunc (lerp (real (16 * d1 + d2)) (real_of_int b) t))
      in Fade_apply b g (CHR ''#'' # r1 # r2 # gb) t = Inr (g, CHR ''#'' # v @ v @ v)
         \<and> Fade_apply b g (CHR ''#'' # r1 # r2 # gb') t = Fade_apply b g (CHR ''#'' # r1 # r2 # gb) t
         \<and> (0 \<le> b \<and> b \<le> 255 \<and> 0 \<le> t \<and> t \<le> 1 \<longrightarrow>
              length v = 2 \<and> list_all is_lower_hex v))"
proof
  assume h: "hex_digit r1 = Some d1 \<and> hex_digit r2 = Some d2"
  define cur where "cur = real (16 * d1 + d2)"
  define v where "v = format_02x (py_trunc (lerp cur (real_of_int b) t))"
  have fade: "Fade_apply b g (CHR ''#'' # r1 # r2 # rest) t = Inr (g, CHR ''#'' # v @ v @ v)" for rest
    using h by (simp add: Fade_apply_digits v_def cur_def Let_def)
  have form: "length v = 2 \<and> list_all is_lower_hex v"
    if r: "0 \<le> b \<and> b \<le> 255 \<and> 0 \<le> t \<and> t \<le> 1"
  proof -
    have "d1 < 16" "d2 < 16" using h hex_digit_facts(1) by blast+
    then have c: "0 \<le> cur" "cur \<le> 255" by (simp_all add: cur_def)
    have "0 \<le> lerp cur (real_of_int b) t" "lerp cur (real_of_int b) t \<le> real_of_int 255"
      using lerp_bounds[of 0 cur 255 "real_of_int b" t] c r by simp_all
    then have "0 \<le> py_trunc (lerp cur (real_of_int b) t)" "py_trunc (lerp cur (real_of_int b) t) \<le> 255"
      using py_trunc_bounds by blast+
    then show ?thesis unfolding v_def using format_02x_byte_form by blast
  qed
  show "let v = format_02x (py_trunc (lerp (real (16 * d1 + d2)) (real_of_int b) t))
      in Fade_apply b g (CHR ''#'' # r1 # r2 # gb) t = Inr (g, CHR ''#'' # v @ v @ v)
         \<and> Fade_apply b g (CHR ''#'' # r1 # r2 # gb') t = Fade_apply b g (CHR ''#'' # r1 # r2 # gb) t
         \<and> (0 \<le> b \<and> b \<le> 255 \<and> 0 \<le> t \<and> t \<le> 1 \<longrightarrow>
              length v = 2 \<and> list_all is_lower_hex v)"
    unfolding Let_def cur_def[symmetric] v_def[symmetric] using fade form by simp
qed

text \<open>
  Claim C10, witness: fading the chromatic \<open>#c81e64\<close> half-way to 40 gives \<open>#787878\<close>
  (red is 200, and 120 is 0x78), as it does from \<open>#c8ffff\<close>.
\<close>

theorem C10_fade_reads_red_channel_witness:
  "Fade_apply 40 [(0, 0)] ''#c81e64'' (1 / 2) = Inr ([(0, 0)], ''#787878'')
   \<and> Fade_apply 40 [(0, 0)] ''#c8ffff'' (1 / 2) = Fade_apply 40 [(0, 0)] ''#c81e64'' (1 / 2)
   \<and> length ''78'' = 2 \<and> list_all is_lower_hex ''78''"
  using C10_fade_reads_red_channel[of "CHR ''c''" 12 "CHR ''8''" 8 40 "1 / 2" "[(0, 0)]"
      "''1e64''" "''ffff''"]
  by (simp add: hex_digit_def lerp_def py_trunc_def format_02x_def hex_char_def is_lower_hex_def)

lemma fade_scenario_walk:
  assumes "py_int16 (take 2 (drop 1 c)) = Inr 255"
  shows "resolve \<lparr>shape_id = sid, points = g, color = c, animation = an\<rparr> fade_scenario now =
           (let v = format_02x (py_trunc (lerp 255 0 (max 0 (min 1 now))))
            in Inr (g, CHR ''#'' # v @ v @ v))"
  using assms by (simp add: resolve_def fade_scenario_def Fade_apply_value Let_def)

text \<open>
  Claim C6: a shape of brightness 255 (its colour reads 255 in the red channel) with
  \<open>Fade(0)\<close> over 1.0 s from t = 0 resolves to brightness 127 at \<open>now = 0.5\<close> and to
  exactly 0 at every \<open>now \<ge> 1.0\<close>, and the frames at 0.5 and at 1.0 hand these colours
  to the renderer. In general \<open>Fade.apply\<close> reads the current brightness from the
  colour, truncates \<open>lerp\<close> of it and the target, and returns the achromatic colour of
  that value with the geometry it was given.
\<close>

theorem C6_fade_to_black:
  "(py_int16 (take 2 (drop 1 c)) = Inr 255 \<longrightarrow>
      resolve \<lparr>shape_id = sid, points = g, color = c, animation = Some fade_scenario\<rparr>
        fade_scenario (1 / 2) = Inr (g, ''#7f7f7f'')
      \<and> (\<forall>now. 1 \<le> now \<longrightarrow>
            resolve \<lparr>shape_id = sid, points = g, color = c, animation = Some fade_scenario\<rparr>
              fade_scenario now = Inr (g, ''#000000''))
      \<and> play_shapes [\<lparr>shape_id = sid, points = g, color = c, animation = Some fade_scenario\<rparr>]
            (1 / 2) True [] = (Inr False, [(sid, g, ''#7f7f7f'')])
      \<and> play_shapes [\<lparr>shape_id = sid, points = g, color = c, animation = Some fade_scenario\<rparr>]
            1 True [] = (Inr False, [(sid, g, ''#000000'')]))
   \<and> py_int16 (take 2 (drop 1 ''#7f7f7f'')) = Inr 127
   \<and> py_int16 (take 2 (drop 1 ''#000000'')) = Inr 0
   \<and> (py_int16 (take 2 (drop 1 c)) = Inr cur \<longrightarrow>
        Fade_apply b g c t =
          (let v = format_02x (py_trunc (lerp (real_of_int cur) (real_of_int b) t))
           in Inr (g, CHR ''#'' # v @ v @ v)))"
proof (intro conjI impI allI)
  assume c: "py_int16 (take 2 (drop 1 c)) = Inr 255"
  have half: "format_02x (py_trunc (lerp 255 0 (1 / 2))) = ''7f''"
    by (simp add: lerp_def py_trunc_def format_02x_def hex_char_def)
  have full: "format_02x (py_trunc (lerp 255 0 1)) = ''00''"
    by (simp add: lerp_def py_trunc_def format_02x_def hex_char_def)
  show r_half: "resolve \<lparr>shape_id = sid, points = g, color = c, animation = Some fade_scenario\<rparr>
        fade_scenario (1 / 2) = Inr (g, ''#7f7f7f'')"
    using half by (simp add: fade_scenario_walk[OF c])
  show r_full: "resolve \<lparr>shape_id = sid, points = g, color = c, animation = Some fade_scenario\<rparr>
        fade_scenario now = Inr (g, ''#000000'')" if "1 \<le> now" for now
    using that full by (simp add: fade_scenario_walk[OF c] min_def)
  have act: "start_time fade_scenario = 0" "end_time fade_scenario = 1"
    by (simp_all add: fade_scenario_def end_time_def duration_def)
  show "play_shapes [\<lparr>shape_id = sid, points = g, color = c, animation = Some fade_scenario\<rparr>]
            (1 / 2) True [] = (Inr False, [(sid, g, ''#7f7f7f'')])"
    using r_half by (simp add: act)
  show "play_shapes [\<lparr>shape_id = sid, points = g, color = c, animation = Some fade_scenario\<rparr>]
            1 True [] = (Inr False, [(sid, g, ''#000000'')])"
    using r_full[of 1] by (simp add: act)
next
  show "py_int16 (take 2 (drop 1 ''#7f7f7f'')) = Inr 127"
    by (simp add: py_int16_def is_space_def hex_digit_def)
  show "py_int16 (take 2 (drop 1 ''#000000'')) = Inr 0"
    by (simp add: py_int16_def is_space_def hex_digit_def)
next
  assume "py_int16 (take 2 (drop 1 c)) = Inr cur"
  then show "Fade_apply b g c t =
          (let v = format_02x (py_trunc (lerp (real_of_int cur) (real_of_int b) t))
           in Inr (g, CHR ''#'' # v @ v @ v))"
    by (rule Fade_apply_value)
qed

text \<open>
  Claim C6, witness: the white square, at \<open>now = 0.5\<close>, at \<open>now = 2\<close>, and a fade from
  0x44 = 68 to 200 at progress 0.25, which is \<open>int(101.0) = 0x65\<close>.
\<close>

theorem C6_fade_to_black_witness:
  "resolve \<lparr>shape_id = ''sq'', points = [(0, 0), (10, 0), (10, 10), (0, 10)], color = ''#ffffff'',
       animation = Some fade_scenario\<rparr> fade_scenario (1 / 2)
     = Inr ([(0, 0), (10, 0), (10, 10), (0, 10)], ''#7f7f7f'')
   \<and> resolve \<lparr>shape_id = ''sq'', points = [(0, 0), (10, 0), (10, 10), (0, 10)], color = ''#ffffff'',
       animation = Some fade_scenario\<rparr> fade_scenario 2
     = Inr ([(0, 0), (10, 0), (10, 10), (0, 10)], ''#000000'')
   \<and> Fade_apply 200 [(0, 0)] ''#444444'' (1 / 4) = Inr ([(0, 0)], ''#656565'')"
  using C6_fade_to_black[of "''#ffffff''" "''sq''" "[(0, 0), (10, 0), (10, 10), (0, 10)]" 255 0 0]
    C6_fade_to_black[of "''#444444''" "''sq''" "[(0, 0)]" 68 200 "1 / 4"]
  by (simp add: py_int16_def is_space_def hex_digit_def lerp_def py_trunc_def format_02x_def
      hex_char_def)

subsection \<open>The replay\<close>

lemma clamp_max_min: "clamp x 0 1 = max 0 (min 1 x)"
  by (simp add: clamp_def max_def min_def)

lemma clamp_less_1: "max 0 (min 1 x) < 1 \<longleftrightarrow> x < (1 :: real)"
  by (simp add: max_def min_def)

lemma rendered_call: "rendered (i, pts, col) = (i, Inr (pts, col))"
  by (simp add: rendered_def)

lemma walk_schedule:
  "walk pairs t cursor pts col = apply_all (schedule pairs t cursor) (pts, col)"
proof (induction pairs arbitrary: cursor pts col)
  case Nil
  show ?case by simp
next
  case (Cons p pairs)
  obtain step d where p: "p = (step, d)" by (cases p)
  show ?case
  proof (cases "d \<le> 0")
    case True
    then show ?thesis using Cons.IH p by simp
  next
    case False
    then show ?thesis
      using Cons.IH p
      by (auto simp: Let_def clamp_max_min clamp_less_1 split: sum.splits)
  qed
qed

lemma resolve_replay: "resolve shape anim now = replay shape anim now"
  by (simp add: resolve_def replay_def walk_schedule)

lemma play_shapes_frame:
  assumes "play_shapes shapes now fin calls = (Inr fin', calls')"
  shows "\<exists>new. calls' = calls @ new
           \<and> map rendered new = spec_frame shapes now"
  using assms
proof (induction shapes arbitrary: fin calls)
  case Nil
  then show ?case by (simp add: spec_frame_def)
next
  case (Cons shape rest)
  show ?case
  proof (cases "animation shape")
    case None
    then show ?thesis using Cons by (simp add: spec_frame_def)
  next
    case (Some anim)
    show ?thesis
    proof (cases "active anim now")
      case False
      then have "play_shapes rest now fin calls = (Inr fin', calls')"
        using Cons.prems Some by (auto simp: active_def)
      from Cons.IH[OF this] show ?thesis
        using False Some by (simp add: spec_frame_def)
    next
      case True
      then obtain pts col where r: "resolve shape anim now = Inr (pts, col)"
        using Cons.prems Some by (cases "resolve shape anim now") (auto simp: active_def)
      then have "play_shapes rest now False (calls @ [(shape_id shape, pts, col)]) = (Inr fin', calls')"
        using Cons.prems Some True by (simp add: active_def)
      from Cons.IH[OF this] obtain new where
        new: "calls' = (calls @ [(shape_id shape, pts, col)]) @ new"
          "map rendered new = spec_frame rest now"
        by blast
      have "spec_frame (shape # rest) now = (shape_id shape, Inr (pts, col)) # spec_frame rest now"
        using Some True r by (simp add: spec_frame_def resolve_replay)
      then show ?thesis using new
        by (intro exI[of _ "(shape_id shape, pts, col) # new"]) (simp add: rendered_call)
    qed
  qed
qed

text \<open>
  Claim C1: what \<open>play_scene\<close> computes for a shape is the replay from its base points
  and colour along the schedule of the specification, and a frame that raises nothing
  adds to the renderer's calls, for exactly the shapes active at \<open>now\<close> and in their
  order, that replay's geometry and colour.
\<close>

theorem C1_frame_is_full_replay:
  "resolve shape anim now = replay shape anim now
   \<and> (play_shapes shapes now fin calls = (Inr fin', calls') \<longrightarrow>
        take (length calls) calls' = calls
        \<and> map rendered (drop (length calls) calls')
            = spec_frame shapes now)"
proof (intro conjI impI)
  show "resolve shape anim now = replay shape anim now" by (rule resolve_replay)
next
  assume "play_shapes shapes now fin calls = (Inr fin', calls')"
  from play_shapes_frame[OF this] obtain new where
    "calls' = calls @ new" "map rendered new = spec_frame shapes now"
    by blast
  then show "take (length calls) calls' = calls"
    and "map rendered (drop (length calls) calls')
            = spec_frame shapes now"
    by simp_all
qed


text \<open>
  Claim C1, witness: the square of the specification's scenario, half-way through
  \<open>Move(10, 0)\<close> over 1.0 s, beside a shape that starts at t = 2 and a shape with no
  timeline.
\<close>

theorem C1_frame_is_full_replay_witness:
  "play_shapes
     [\<lparr>shape_id = ''square'', points = [(0, 0), (10, 0), (10, 10), (0, 10)], color = ''#444444'',
        animation = Some \<lparr>steps = [Move 10 0], durations = [1], start_time = 0\<rparr>\<rparr>,
      \<lparr>shape_id = ''late'', points = [(0, 0)], color = ''#888888'',
        animation = Some \<lparr>steps = [Fade 220], durations = [1], start_time = 2\<rparr>\<rparr>,
      \<lparr>shape_id = ''still'', points = [(1, 1)], color = ''#000000'', animation = None\<rparr>]
     (1 / 2) True []
   = (Inr False, [(''square'', [(5, 0), (15, 0), (15, 10), (5, 10)], ''#444444'')])
   \<and> spec_frame
     [\<lparr>shape_id = ''square'', points = [(0, 0), (10, 0), (10, 10), (0, 10)], color = ''#444444'',
        animation = Some \<lparr>steps = [Move 10 0], durations = [1], start_time = 0\<rparr>\<rparr>,
      \<lparr>shape_id = ''late'', points = [(0, 0)], color = ''#888888'',
        animation = Some \<lparr>steps = [Fade 220], durations = [1], start_time = 2\<rparr>\<rparr>,
      \<lparr>shape_id = ''still'', points = [(1, 1)], color = ''#000000'', animation = None\<rparr>]
     (1 / 2)
   = [(''square'', Inr ([(5, 0), (15, 0), (15, 10), (5, 10)], ''#444444''))]"
proof -
  let ?scene = "[\<lparr>shape_id = ''square'', points = [(0, 0), (10, 0), (10, 10), (0, 10)],
        color = ''#444444'',
        animation = Some \<lparr>steps = [Move 10 0], durations = [1], start_time = 0\<rparr>\<rparr>,
      \<lparr>shape_id = ''late'', points = [(0, 0)], color = ''#888888'',
        animation = Some \<lparr>steps = [Fade 220], durations = [1], start_time = 2\<rparr>\<rparr>,
      \<lparr>shape_id = ''still'', points = [(1, 1)], color = ''#000000'', animation = None\<rparr>]"
  have run: "play_shapes ?scene (1 / 2) True []
      = (Inr False, [(''square'', [(5, 0), (15, 0), (15, 10), (5, 10)], ''#444444'')])"
    by (simp add: end_time_def duration_def resolve_def Move_apply_def)
  from C1_frame_is_full_replay[where shapes = ?scene and now = "1 / 2" and fin = True
      and calls = "[]" and fin' = False
      and calls' = "[(''square'', [(5, 0), (15, 0), (15, 10), (5, 10)], ''#444444'')]"] run
  have "map rendered [(''square'', [(5, 0), (15, 0), (15, 10), (5, 10)], ''#444444'')]
      = spec_frame ?scene (1 / 2)"
    by simp
  with run show ?thesis by (simp add: rendered_call)
qed

subsection \<open>The end of a timeline\<close>

lemma walk_fl_exact: "walk_fl (\<lambda>x. x) pairs t cursor pts col = walk pairs t cursor pts col"
  by (induction pairs arbitrary: cursor pts col) (auto simp: Let_def split: sum.splits)

lemma resolve_fl_exact: "resolve_fl (\<lambda>x. x) shape anim now = resolve shape anim now"
  by (simp add: resolve_fl_def resolve_def walk_fl_exact)

lemma foldl_exact:
  "exact_from rnd acc ds \<Longrightarrow> foldl (\<lambda>acc d. rnd (acc + d)) acc ds = acc + sum_list ds"
  by (induction ds arbitrary: acc) (simp_all add: add.assoc)

lemma exact_from_fixed:
  "exact_from rnd acc ds \<Longrightarrow> ds \<noteq> [] \<Longrightarrow> rnd (acc + sum_list ds) = acc + sum_list ds"
proof (induction ds arbitrary: acc)
  case Nil
  then show ?case by simp
next
  case (Cons d ds)
  show ?case
  proof (cases ds)
    case Nil
    then show ?thesis using Cons.prems by simp
  next
    case (Cons e es)
    then have "rnd (acc + d + sum_list ds) = acc + d + sum_list ds"
      using Cons.IH[of "acc + d"] Cons.prems by simp
    then show ?thesis by (simp add: add.assoc)
  qed
qed

lemma exact_from_take: "exact_from rnd acc ds \<Longrightarrow> exact_from rnd acc (take n ds)"
proof (induction ds arbitrary: acc n)
  case Nil
  then show ?case by simp
next
  case (Cons d ds)
  then show ?case by (cases n) simp_all
qed

lemma map_snd_zip_take: "map snd (zip st du) = take (length st) du"
proof (induction st arbitrary: du)
  case Nil
  show ?case by simp
next
  case (Cons s st)
  then show ?case by (cases du) simp_all
qed

lemma sum_list_take_le:
  "list_all (\<lambda>d. 0 \<le> d) du \<Longrightarrow> sum_list (take n du) \<le> sum_list (du :: real list)"
proof (induction du arbitrary: n)
  case Nil
  then show ?case by simp
next
  case (Cons d du)
  have "0 \<le> sum_list du"
    using Cons.prems by (intro sum_list_nonneg) (auto simp: list_all_iff)
  then show ?case using Cons by (cases n) auto
qed

lemma walk_fl_complete:
  assumes "mono rnd" and "rnd 1 = 1"
    and "list_all (\<lambda>p. 0 \<le> snd p \<and> rnd (snd p) = snd p) pairs"
    and "exact_from rnd cursor (map snd pairs)"
    and "cursor + sum_list (map snd pairs) \<le> t"
  shows "walk_fl rnd pairs t cursor pts col
           = apply_all (map (\<lambda>p. (fst p, 1)) (filter (\<lambda>p. 0 < snd p) pairs)) (pts, col)"
  using assms(3,4,5)
proof (induction pairs arbitrary: cursor pts col)
  case Nil
  show ?case by simp
next
  case (Cons p pairs)
  obtain step d where p: "p = (step, d)" by (cases p)
  from Cons.prems p have d: "0 \<le> d" "rnd d = d"
    and rest: "list_all (\<lambda>p. 0 \<le> snd p \<and> rnd (snd p) = snd p) pairs"
    and ex: "rnd (cursor + d) = cursor + d" "exact_from rnd (cursor + d) (map snd pairs)"
    and le: "cursor + d + sum_list (map snd pairs) \<le> t"
    by (simp_all add: add.assoc)
  show ?case
  proof (cases "d \<le> 0")
    case True
    with d have "d = 0" by simp
    then show ?thesis using Cons.IH[OF rest, of cursor] ex le p by simp
  next
    case False
    have "0 \<le> sum_list (map snd pairs)"
      using rest by (intro sum_list_nonneg) (auto simp: list_all_iff)
    with le have "d \<le> t - cursor" by simp
    then have "rnd d \<le> rnd (t - cursor)" using assms(1) by (simp add: monoD)
    then have "1 \<le> rnd (t - cursor) / d" using False d by (simp add: le_divide_eq)
    then have "rnd 1 \<le> rnd (rnd (t - cursor) / d)" using assms(1) by (simp add: monoD)
    then have raw: "1 \<le> rnd (rnd (t - cursor) / d)" using assms(2) by simp
    then have lt: "max 0 (min 1 (rnd (rnd (t - cursor) / d))) = 1" by simp
    have ih: "walk_fl rnd pairs t (cursor + d) pts' col'
        = apply_all (map (\<lambda>p. (fst p, 1)) (filter (\<lambda>p. 0 < snd p) pairs)) (pts', col')"
      for pts' col'
      using Cons.IH[OF rest ex(2) le] .
    show ?thesis
      using False p lt ex(1) ih by (auto simp: Let_def split: sum.splits)
  qed
qed


lemma mono_round_quarter: "mono round_quarter"
  by (auto simp: mono_def round_quarter_def intro!: divide_right_mono floor_mono)

text \<open>
  Claim C4 says that at \<open>now = end_time\<close> the replay is the composition of every step
  of the timeline at progress 1.0. A step whose duration is 0 is skipped, not applied:
  after \<open>Move(10, 0)\<close> over 1.0 s and \<open>Fade(0)\<close> over 0 s the shape has moved and kept
  its colour, where the composition of both steps at progress 1.0 is black.
\<close>

theorem C4_zero_duration_step_skipped:
  "end_time \<lparr>steps = [Move 10 0, Fade 0], durations = [1, 0], start_time = 0\<rparr> = 1
   \<and> resolve \<lparr>shape_id = ''sq'', points = [(0, 0)], color = ''#ffffff'', animation = None\<rparr>
         \<lparr>steps = [Move 10 0, Fade 0], durations = [1, 0], start_time = 0\<rparr> 1
       = Inr ([(10, 0)], ''#ffffff'')
   \<and> apply_all [(Move 10 0, 1), (Fade 0, 1)] ([(0, 0)], ''#ffffff'')
       = Inr ([(10, 0)], ''#000000'')
   \<and> resolve \<lparr>shape_id = ''sq'', points = [(0, 0)], color = ''#ffffff'', animation = None\<rparr>
         \<lparr>steps = [Move 10 0, Fade 0], durations = [1, 0], start_time = 0\<rparr> 1
       \<noteq> apply_all [(Move 10 0, 1), (Fade 0, 1)] ([(0, 0)], ''#ffffff'')"
  by (simp add: end_time_def duration_def resolve_def Move_apply_def Fade_apply_def py_int16_def
      is_space_def hex_digit_def lerp_def py_trunc_def format_02x_def hex_char_def)

text \<open>
  Claim C4, amended: take a timeline with no negative duration whose timing sums are
  exact in floating point (no partial sum of the durations is rounded, and
  \<open>start_time + duration\<close> is not rounded). Then \<open>duration\<close> is the sum of the durations,
  the shape is active at \<open>now = end_time\<close>, and its replay there is the composition, in
  order and from the base points and colour, of the steps that \<open>zip\<close> pairs with a
  positive duration, each at progress exactly 1. This holds for every rounding that is
  monotone and keeps the doubles 1.0 and the durations as they are, as the rounding of
  doubles does. Where a sum is rounded the last step can stop short of progress 1: in
  doubles \<open>(0.2 + 0.5) - 0.2\<close> is below \<open>0.5\<close>. With no rounding at all the definitions with
  \<open>rnd\<close> are the ones of the first model.
\<close>

theorem C4_end_time_exact_sums:
  "resolve_fl (\<lambda>x. x) shape anim now = resolve shape anim now
   \<and> (mono rnd \<and> rnd 1 = 1
       \<and> list_all (\<lambda>d. 0 \<le> d \<and> rnd d = d) (durations anim)
       \<and> exact_from rnd 0 (durations anim)
       \<and> rnd (start_time anim + duration_fl rnd anim) = start_time anim + duration_fl rnd anim
       \<longrightarrow>
         duration_fl rnd anim = sum_list (durations anim)
         \<and> start_time anim \<le> end_time_fl rnd anim
         \<and> resolve_fl rnd shape anim (end_time_fl rnd anim)
             = apply_all (map (\<lambda>p. (fst p, 1))
                            (filter (\<lambda>p. 0 < snd p) (zip (steps anim) (durations anim))))
                 (points shape, color shape))"
proof (intro conjI impI)
  show "resolve_fl (\<lambda>x. x) shape anim now = resolve shape anim now"
    by (rule resolve_fl_exact)
next
  assume h: "mono rnd \<and> rnd 1 = 1
       \<and> list_all (\<lambda>d. 0 \<le> d \<and> rnd d = d) (durations anim)
       \<and> exact_from rnd 0 (durations anim)
       \<and> rnd (start_time anim + duration_fl rnd anim) = start_time anim + duration_fl rnd anim"
  let ?du = "durations anim"
  let ?pairs = "zip (steps anim) ?du"
  from h have mono: "mono rnd" and one: "rnd 1 = 1"
    and du: "list_all (\<lambda>d. 0 \<le> d \<and> rnd d = d) ?du"
    and ex: "exact_from rnd 0 ?du"
    and en: "rnd (start_time anim + duration_fl rnd anim) = start_time anim + duration_fl rnd anim"
    by simp_all
  from du have nonneg: "list_all (\<lambda>d. 0 \<le> d) ?du" by (simp add: list_all_iff)
  show dur: "duration_fl rnd anim = sum_list ?du"
    using foldl_exact[OF ex] by (simp add: duration_fl_def)
  have "0 \<le> sum_list ?du"
    using nonneg by (intro sum_list_nonneg) (auto simp: list_all_iff)
  then show "start_time anim \<le> end_time_fl rnd anim"
    using en dur by (simp add: end_time_fl_def)
  have t_anim: "rnd (end_time_fl rnd anim - start_time anim) = rnd (sum_list ?du)"
    using en dur by (simp add: end_time_fl_def)
  show "resolve_fl rnd shape anim (end_time_fl rnd anim)
      = apply_all (map (\<lambda>p. (fst p, 1)) (filter (\<lambda>p. 0 < snd p) ?pairs))
          (points shape, color shape)"
  proof (cases "?du = []")
    case True
    then show ?thesis by (simp add: resolve_fl_def)
  next
    case False
    then have fixed: "rnd (sum_list ?du) = sum_list ?du"
      using exact_from_fixed[OF ex] by simp
    have p1: "list_all (\<lambda>p. 0 \<le> snd p \<and> rnd (snd p) = snd p) ?pairs"
      using du by (auto simp: list_all_iff dest: set_zip_rightD)
    have p2: "exact_from rnd 0 (map snd ?pairs)"
      using exact_from_take[OF ex] by (simp add: map_snd_zip_take)
    have p3: "0 + sum_list (map snd ?pairs) \<le> sum_list ?du"
      using sum_list_take_le[OF nonneg] by (simp add: map_snd_zip_take)
    from walk_fl_complete[OF mono one p1 p2 p3] show ?thesis
      by (simp add: resolve_fl_def t_anim fixed)
  qed
qed

text \<open>
  Claim C4, witness: the triangle's timeline of \<open>main_before.py\<close> with a pause of 0 s
  added, with every timing operation rounded to the nearest quarter, at its end time 3.5.
\<close>

theorem C4_end_time_exact_sums_witness:
  "end_time_fl round_quarter
     \<lparr>steps = [Fade 220, Rotate 45, Move (- 80) 40, Scale (9 / 10)],
      durations = [1, 0, 1, 1], start_time = 1 / 2\<rparr> = 7 / 2
   \<and> resolve_fl round_quarter
        \<lparr>shape_id = ''triangle'', points = [(500, 250), (550, 350), (450, 350)],
         color = ''#888888'', animation = None\<rparr>
        \<lparr>steps = [Fade 220, Rotate 45, Move (- 80) 40, Scale (9 / 10)],
         durations = [1, 0, 1, 1], start_time = 1 / 2\<rparr> (7 / 2)
      = apply_all [(Fade 220, 1), (Move (- 80) 40, 1), (Scale (9 / 10), 1)]
          ([(500, 250), (550, 350), (450, 350)], ''#888888'')"
proof -
  let ?an = "\<lparr>steps = [Fade 220, Rotate 45, Move (- 80) 40, Scale (9 / 10)],
      durations = [1, 0, 1, 1], start_time = 1 / 2\<rparr>"
  let ?tri = "\<lparr>shape_id = ''triangle'', points = [(500, 250), (550, 350), (450, 350)],
      color = ''#888888'', animation = None\<rparr>"
  have dur: "duration_fl round_quarter ?an = 3"
    by (simp add: duration_fl_def round_quarter_def)
  have en: "end_time_fl round_quarter ?an = 7 / 2"
    by (simp add: end_time_fl_def dur) (simp add: round_quarter_def)
  have hyp: "mono round_quarter \<and> round_quarter 1 = 1
       \<and> list_all (\<lambda>d. 0 \<le> d \<and> round_quarter d = d) (durations ?an)
       \<and> exact_from round_quarter 0 (durations ?an)
       \<and> round_quarter (start_time ?an + duration_fl round_quarter ?an)
           = start_time ?an + duration_fl round_quarter ?an"
    using mono_round_quarter by (simp add: dur) (simp add: round_quarter_def)
  from C4_end_time_exact_sums[where rnd = round_quarter and anim = ?an and shape = ?tri] hyp
  have "resolve_fl round_quarter ?tri ?an (end_time_fl round_quarter ?an)
      = apply_all (map (\<lambda>p. (fst p, 1))
                     (filter (\<lambda>p. 0 < snd p) (zip (steps ?an) (durations ?an))))
          (points ?tri, color ?tri)"
    by blast
  then show ?thesis using en by simp
qed


text \<open>
  Where a sum is rounded the composition is not reached: with \<open>round_coarse\<close>, a start
  at 0.25 and one \<open>Move(8, 0)\<close> over 1.0 s, \<open>end_time\<close> is 1.25 rounded to 1, and at that
  instant the step is at progress 0.75.
\<close>

lemma rounded_end_time_short_of_1:
  "end_time_fl round_coarse \<lparr>steps = [Move 8 0], durations = [1], start_time = 1 / 4\<rparr> = 1
   \<and> resolve_fl round_coarse
        \<lparr>shape_id = ''sq'', points = [(0, 0)], color = ''#444444'', animation = None\<rparr>
        \<lparr>steps = [Move 8 0], durations = [1], start_time = 1 / 4\<rparr> 1
      = Inr ([(6, 0)], ''#444444'')"
  by (simp add: end_time_fl_def duration_fl_def resolve_fl_def round_coarse_def Move_apply_def)

subsection \<open>Exceptions end the playback\<close>

lemma schedule_skip:
  "list_all (\<lambda>p. snd p \<le> 0) skipped \<Longrightarrow> schedule (skipped @ rest) t cursor = schedule rest t cursor"
  by (induction skipped) auto

lemma play_shapes_append:
  "play_shapes (xs @ ys) now fin calls =
     (case play_shapes xs now fin calls of
        (Inl e, calls') \<Rightarrow> (Inl e, calls')
      | (Inr fin', calls') \<Rightarrow> play_shapes ys now fin' calls')"
  by (induction xs arbitrary: fin calls) (auto split: option.splits sum.splits)

lemma Rotate_apply_empty: "Rotate_apply a [] c t = Inl ZeroDivisionError"
  by (simp add: Rotate_apply_def)

lemma Scale_apply_empty: "Scale_apply f [] c t = Inl ZeroDivisionError"
  by (simp add: Scale_apply_def)

lemma play_shapes_no_animation:
  "List.map_filter animation shapes = [] \<Longrightarrow> play_shapes shapes now fin calls = (Inr fin, calls)"
  by (induction shapes) (auto simp: List.map_filter_simps split: option.splits)

lemma play_scene_loop:
  assumes "py_max (map end_time (List.map_filter animation shapes)) = Inr ge"
  shows "play_scene shapes (t0 # ticks) = play_loop shapes ge t0 ticks []"
proof -
  have "List.map_filter animation shapes \<noteq> []"
    using assms by (auto simp: py_max_def)
  then show ?thesis using assms by (simp add: play_scene_def)
qed

lemma py_max_Inr: "xs \<noteq> [] \<Longrightarrow> \<exists>ge. py_max xs = Inr ge"
  by (cases xs) (simp_all add: py_max_def)

lemma play_scene_first_frame_raises:
  assumes "play_shapes shapes (tick - t0) True [] = (Inl e, calls')"
  shows "play_scene shapes (t0 # tick # ticks) = (Raised e, calls')"
proof -
  have "List.map_filter animation shapes \<noteq> []"
    using assms play_shapes_no_animation[of shapes "tick - t0" True "[]"] by auto
  then obtain ge where "py_max (map end_time (List.map_filter animation shapes)) = Inr ge"
    using py_max_Inr[of "map end_time (List.map_filter animation shapes)"] by auto
  from play_scene_loop[OF this] show ?thesis using assms by simp
qed

text \<open>
  Claim C8 says that \<open>Rotate\<close> and \<open>Scale\<close> on a geometry with no point fail with a
  descriptive error rather than by dividing by zero. The code has no check and no
  message of its own: it divides by \<open>len(shape) = 0\<close>, and what leaves \<open>apply\<close> and
  \<open>play_scene\<close> is the \<open>ZeroDivisionError\<close> of that division.
\<close>

theorem C8_error_is_the_division_by_zero:
  "apply_step (Rotate 90) [] ''#444444'' (1 / 2) = Inl ZeroDivisionError
   \<and> apply_step (Scale 2) [] ''#444444'' (1 / 2) = Inl ZeroDivisionError
   \<and> play_scene
        [\<lparr>shape_id = ''empty'', points = [], color = ''#444444'',
           animation = Some \<lparr>steps = [Rotate 90], durations = [1], start_time = 0\<rparr>\<rparr>]
        [100, 100 + 1 / 2, 101]
      = (Raised ZeroDivisionError, [])"
  by (simp add: Rotate_apply_def Scale_apply_def play_scene_def List.map_filter_simps py_max_def
      end_time_def duration_def resolve_def)

text \<open>
  Claim C8, amended: \<open>Rotate.apply\<close> and \<open>Scale.apply\<close> on a geometry with no point
  raise \<open>ZeroDivisionError\<close>, at every progress, and return nothing. When the first step
  with a positive duration of an active shape with no points is one of them, the frame
  stops at that shape with the error: the shapes after it are not visited, and the calls
  made before it stay. A frame that raises ends the loop with that error whatever the
  later readings of the clock, and \<open>play_scene\<close> ends with the error its loop ends with:
  the playback aborts.
\<close>

theorem C8_empty_geometry_aborts_playback:
  "apply_step (Rotate a) [] c t = Inl ZeroDivisionError
   \<and> apply_step (Scale f) [] c t = Inl ZeroDivisionError
   \<and> (points shape = [] \<and> animation shape = Some anim \<and> active anim now
        \<and> zip (steps anim) (durations anim) = skipped @ (step, d) # rest
        \<and> list_all (\<lambda>p. snd p \<le> 0) skipped \<and> 0 < d \<and> (step = Rotate a \<or> step = Scale f)
        \<and> play_shapes earlier now fin calls = (Inr fin', calls') \<longrightarrow>
          play_shapes (earlier @ shape # later) now fin calls = (Inl ZeroDivisionError, calls'))
   \<and> (play_shapes shapes (tick - t0) True calls = (Inl e, calls') \<longrightarrow>
          play_loop shapes global_end t0 (tick # ticks) calls = (Raised e, calls'))
   \<and> (play_shapes shapes (tick - t0) True [] = (Inl e, calls') \<longrightarrow>
          play_scene shapes (t0 # tick # ticks) = (Raised e, calls'))
   \<and> (py_max (map end_time (List.map_filter animation shapes)) = Inr global_end
        \<and> play_loop shapes global_end t0 ticks [] = (Raised e, calls') \<longrightarrow>
          play_scene shapes (t0 # ticks) = (Raised e, calls'))"
proof (intro conjI impI)
  show "apply_step (Rotate a) [] c t = Inl ZeroDivisionError" by (simp add: Rotate_apply_empty)
  show "apply_step (Scale f) [] c t = Inl ZeroDivisionError" by (simp add: Scale_apply_empty)
next
  assume h: "points shape = [] \<and> animation shape = Some anim \<and> active anim now
        \<and> zip (steps anim) (durations anim) = skipped @ (step, d) # rest
        \<and> list_all (\<lambda>p. snd p \<le> 0) skipped \<and> 0 < d \<and> (step = Rotate a \<or> step = Scale f)
        \<and> play_shapes earlier now fin calls = (Inr fin', calls')"
  then have "apply_step step [] (color shape) x = Inl ZeroDivisionError" for x
    by (auto simp: Rotate_apply_empty Scale_apply_empty)
  then have "replay shape anim now = Inl ZeroDivisionError"
    using h by (simp add: replay_def schedule_skip)
  then have "play_shapes (shape # later) now fin' calls' = (Inl ZeroDivisionError, calls')"
    using h by (simp add: resolve_replay active_def)
  then show "play_shapes (earlier @ shape # later) now fin calls = (Inl ZeroDivisionError, calls')"
    using h by (simp add: play_shapes_append)
next
  assume "play_shapes shapes (tick - t0) True calls = (Inl e, calls')"
  then show "play_loop shapes global_end t0 (tick # ticks) calls = (Raised e, calls')"
    by simp
next
  assume "play_shapes shapes (tick - t0) True [] = (Inl e, calls')"
  then show "play_scene shapes (t0 # tick # ticks) = (Raised e, calls')"
    by (rule play_scene_first_frame_raises)
next
  assume "py_max (map end_time (List.map_filter animation shapes)) = Inr global_end
        \<and> play_loop shapes global_end t0 ticks [] = (Raised e, calls')"
  then show "play_scene shapes (t0 # ticks) = (Raised e, calls')"
    using play_scene_loop[of shapes global_end t0 ticks] by simp
qed

text \<open>
  Claim C8, witness: a square is rendered, then a shape with no points reaches
  \<open>Scale(2)\<close> behind a step of duration 0; the frame raises, the shape after it is never
  rendered, and \<open>play_scene\<close> ends with the error at the first poll although the clock
  goes on.
\<close>

theorem C8_empty_geometry_aborts_playback_witness:
  "play_shapes
     ([\<lparr>shape_id = ''square'', points = [(0, 0), (10, 0), (10, 10), (0, 10)], color = ''#444444'',
         animation = Some \<lparr>steps = [Move 10 0], durations = [1], start_time = 0\<rparr>\<rparr>]
      @ \<lparr>shape_id = ''empty'', points = [], color = ''#444444'',
          animation = Some \<lparr>steps = [Move 1 1, Scale 2], durations = [0, 1], start_time = 0\<rparr>\<rparr>
      # [\<lparr>shape_id = ''last'', points = [(1, 1)], color = ''#000000'',
          animation = Some \<lparr>steps = [Move 10 0], durations = [1], start_time = 0\<rparr>\<rparr>])
     (100 + 1 / 2 - 100) True []
   = (Inl ZeroDivisionError, [(''square'', [(5, 0), (15, 0), (15, 10), (5, 10)], ''#444444'')])
   \<and> play_scene
     ([\<lparr>shape_id = ''square'', points = [(0, 0), (10, 0), (10, 10), (0, 10)], color = ''#444444'',
         animation = Some \<lparr>steps = [Move 10 0], durations = [1], start_time = 0\<rparr>\<rparr>]
      @ \<lparr>shape_id = ''empty'', points = [], color = ''#444444'',
          animation = Some \<lparr>steps = [Move 1 1, Scale 2], durations = [0, 1], start_time = 0\<rparr>\<rparr>
      # [\<lparr>shape_id = ''last'', points = [(1, 1)], color = ''#000000'',
          animation = Some \<lparr>steps = [Move 10 0], durations = [1], start_time = 0\<rparr>\<rparr>])
     [100, 100 + 1 / 2, 101, 102]
   = (Raised ZeroDivisionError, [(''square'', [(5, 0), (15, 0), (15, 10), (5, 10)], ''#444444'')])"
proof -
  let ?sq = "\<lparr>shape_id = ''square'', points = [(0, 0), (10, 0), (10, 10), (0, 10)],
      color = ''#444444'',
      animation = Some \<lparr>steps = [Move 10 0], durations = [1], start_time = 0\<rparr>\<rparr>"
  let ?an = "\<lparr>steps = [Move 1 1, Scale 2], durations = [0, 1], start_time = 0\<rparr>"
  let ?em = "\<lparr>shape_id = ''empty'', points = [], color = ''#444444'', animation = Some ?an\<rparr>"
  let ?la = "\<lparr>shape_id = ''last'', points = [(1, 1)], color = ''#000000'',
      animation = Some \<lparr>steps = [Move 10 0], durations = [1], start_time = 0\<rparr>\<rparr>"
  let ?out = "[(''square'', [(5 :: real, 0 :: real), (15, 0), (15, 10), (5, 10)], ''#444444'')]"
  have first: "play_shapes [?sq] (100 + 1 / 2 - 100) True [] = (Inr False, ?out)"
    by (simp add: end_time_def duration_def resolve_def Move_apply_def)
  have frame: "play_shapes ([?sq] @ ?em # [?la]) (100 + 1 / 2 - 100) True []
      = (Inl ZeroDivisionError, ?out)"
    using C8_empty_geometry_aborts_playback[where shape = ?em and anim = ?an
        and now = "100 + 1 / 2 - 100"
        and skipped = "[(Move 1 1, 0)]" and step = "Scale 2" and d = 1 and rest = "[]"
        and f = 2 and earlier = "[?sq]" and fin = True and calls = "[]" and fin' = False
        and calls' = ?out and later = "[?la]"] first
    by (simp add: active_def end_time_def duration_def)
  have "play_scene ([?sq] @ ?em # [?la]) [100, 100 + 1 / 2, 101, 102]
      = (Raised ZeroDivisionError, ?out)"
    using C8_empty_geometry_aborts_playback[where shapes = "[?sq] @ ?em # [?la]"
        and tick = "100 + 1 / 2" and ?t0.0 = 100 and e = ZeroDivisionError
        and calls' = ?out and ticks = "[101, 102]"] frame
    by blast
  with frame show ?thesis by blast
qed

subsection \<open>The end of the playback\<close>

lemma play_shapes_finished:
  "play_shapes shapes now fin calls = (Inr fin', calls') \<Longrightarrow>
     fin' = (fin \<and> \<not> list_ex (active_shape now) shapes)"
proof (induction shapes arbitrary: fin calls)
  case Nil
  then show ?case by simp
next
  case (Cons shape rest)
  show ?case
  proof (cases "animation shape")
    case None
    then show ?thesis using Cons by (simp add: active_shape_def)
  next
    case (Some anim)
    show ?thesis
    proof (cases "active anim now")
      case False
      then have "play_shapes rest now fin calls = (Inr fin', calls')"
        using Cons.prems Some by (auto simp: active_def)
      from Cons.IH[OF this] show ?thesis
        using False Some by (simp add: active_shape_def)
    next
      case True
      then obtain pts col where "resolve shape anim now = Inr (pts, col)"
        using Cons.prems Some by (cases "resolve shape anim now") (auto simp: active_def)
      then have "play_shapes rest now False (calls @ [(shape_id shape, pts, col)]) = (Inr fin', calls')"
        using Cons.prems Some True by (simp add: active_def)
      from Cons.IH[OF this] show ?thesis
        using True Some by (simp add: active_shape_def)
    qed
  qed
qed

lemma gap_scene_global_end:
  "play_scene gap_scene (t0 # ticks) = play_loop gap_scene 3 t0 ticks []"
  by (simp add: play_scene_def gap_scene_def List.map_filter_simps py_max_def end_time_def
      duration_def)

lemma gap_scene_active:
  "list_ex (active_shape now) gap_scene \<longleftrightarrow> (0 \<le> now \<and> now \<le> 1) \<or> (2 \<le> now \<and> now \<le> 3)"
  by (simp add: gap_scene_def active_shape_def active_def end_time_def duration_def)

lemma gap_scene_frame:
  "play_shapes gap_scene now True calls =
     (Inr (\<not> list_ex (active_shape now) gap_scene),
      calls @ (if 0 \<le> now \<and> now \<le> 1
               then [(''first'', [(10 * max 0 (min 1 now), 0)], ''#444444'')] else [])
            @ (if 2 \<le> now \<and> now \<le> 3
               then [(''second'', [(0, 10 * max 0 (min 1 (now - 2)))], ''#888888'')] else []))"
  unfolding gap_scene_active
  by (simp add: gap_scene_def end_time_def duration_def resolve_def Move_apply_def Let_def)

lemma gap_scene_loop_status:
  "fst (play_loop gap_scene 3 t0 ticks calls) =
     (if list_ex (\<lambda>tick. 3 < tick - t0) ticks then Returned else Polling)"
proof (induction ticks arbitrary: calls)
  case Nil
  show ?case by simp
next
  case (Cons tick ticks)
  show ?case
  proof (cases "3 < tick - t0")
    case True
    then show ?thesis by (simp add: gap_scene_frame gap_scene_active)
  next
    case False
    then have stay: "\<not> (\<not> list_ex (active_shape (tick - t0)) gap_scene \<and> 3 \<le> tick - t0)"
      by (auto simp: gap_scene_active)
    obtain calls' where
      "play_shapes gap_scene (tick - t0) True calls
         = (Inr (\<not> list_ex (active_shape (tick - t0)) gap_scene), calls')"
      using gap_scene_frame by blast
    then have "play_loop gap_scene 3 t0 (tick # ticks) calls = play_loop gap_scene 3 t0 ticks calls'"
      using stay by (auto simp: Let_def)
    then show ?thesis using False Cons.IH[of calls'] by simp
  qed
qed

text \<open>
  Claim C2 says that with the windows [0, 1] and [2, 3] the loop exits once
  \<open>now \<ge> 3\<close>. At a poll with \<open>now = 3\<close> the second shape is still active (the window
  is closed at its end), it is rendered at its final pose, and the loop goes on.
\<close>

theorem C2_no_exit_at_global_end:
  "play_scene gap_scene [0, 3] = (Polling, [(''second'', [(0, 10)], ''#888888'')])"
  by (simp add: gap_scene_global_end gap_scene_frame gap_scene_active)

text \<open>
  Claim C2, amended: a poll at \<open>now\<close> whose frame raises nothing ends the loop exactly
  when no shape is active at \<open>now\<close> and \<open>now \<ge> global_end\<close>. With the windows [0, 1] and
  [2, 3], \<open>global_end\<close> is 3; a poll in the gap (1, 2) finds no shape active, renders
  nothing and does not end the loop; a poll at \<open>now = 3\<close> renders the second shape and
  does not end it either; a poll with \<open>now > 3\<close> ends it. So the playback returns exactly
  when the clock gives a reading with \<open>now > 3\<close>.
\<close>

theorem C2_loop_exit_condition:
  "(play_shapes shapes (tick - t0) True calls = (Inr fin, calls') \<longrightarrow>
      fin = (\<not> list_ex (active_shape (tick - t0)) shapes)
      \<and> play_loop shapes global_end t0 (tick # ticks) calls =
          (if \<not> list_ex (active_shape (tick - t0)) shapes \<and> global_end \<le> tick - t0
           then (Returned, calls') else play_loop shapes global_end t0 ticks calls'))
   \<and> play_scene gap_scene (t0 # ticks) = play_loop gap_scene 3 t0 ticks []
   \<and> (1 < tick - t0 \<and> tick - t0 < 2 \<longrightarrow>
        \<not> list_ex (active_shape (tick - t0)) gap_scene
        \<and> play_loop gap_scene 3 t0 (tick # ticks) calls = play_loop gap_scene 3 t0 ticks calls)
   \<and> (tick - t0 = 3 \<longrightarrow>
        play_loop gap_scene 3 t0 (tick # ticks) calls
          = play_loop gap_scene 3 t0 ticks (calls @ [(''second'', [(0, 10)], ''#888888'')]))
   \<and> (3 < tick - t0 \<longrightarrow> play_loop gap_scene 3 t0 (tick # ticks) calls = (Returned, calls))
   \<and> fst (play_scene gap_scene (t0 # ticks))
       = (if list_ex (\<lambda>tick. 3 < tick - t0) ticks then Returned else Polling)"
proof (intro conjI impI)
  assume f: "play_shapes shapes (tick - t0) True calls = (Inr fin, calls')"
  from play_shapes_finished[OF this]
  show fin: "fin = (\<not> list_ex (active_shape (tick - t0)) shapes)" by simp
  show "play_loop shapes global_end t0 (tick # ticks) calls =
          (if \<not> list_ex (active_shape (tick - t0)) shapes \<and> global_end \<le> tick - t0
           then (Returned, calls') else play_loop shapes global_end t0 ticks calls')"
    using f fin by (simp add: Let_def)
next
  show "play_scene gap_scene (t0 # ticks) = play_loop gap_scene 3 t0 ticks []"
    by (rule gap_scene_global_end)
next
  assume "1 < tick - t0 \<and> tick - t0 < 2"
  then show "\<not> list_ex (active_shape (tick - t0)) gap_scene"
    and "play_loop gap_scene 3 t0 (tick # ticks) calls = play_loop gap_scene 3 t0 ticks calls"
    by (simp_all add: gap_scene_frame gap_scene_active)
next
  assume "tick - t0 = 3"
  then show "play_loop gap_scene 3 t0 (tick # ticks) calls
          = play_loop gap_scene 3 t0 ticks (calls @ [(''second'', [(0, 10)], ''#888888'')])"
    by (simp add: gap_scene_frame gap_scene_active)
next
  assume "3 < tick - t0"
  then show "play_loop gap_scene 3 t0 (tick # ticks) calls = (Returned, calls)"
    by (simp add: gap_scene_frame gap_scene_active)
next
  show "fst (play_scene gap_scene (t0 # ticks))
       = (if list_ex (\<lambda>tick. 3 < tick - t0) ticks then Returned else Polling)"
    by (simp only: gap_scene_global_end gap_scene_loop_status)
qed

text \<open>
  Claim C2, witness: started at clock reading 100 and polled at 0.5, 1.5, 3 and 3.25
  seconds, the playback renders the first shape, nothing in the gap, the second shape at
  its final pose, and returns at the fourth poll without looking at the fifth.
\<close>

theorem C2_loop_exit_condition_witness:
  "play_scene gap_scene [100, 100 + 1 / 2, 100 + 3 / 2, 103, 103 + 1 / 4, 104]
     = (Returned, [(''first'', [(5, 0)], ''#444444''), (''second'', [(0, 10)], ''#888888'')])
   \<and> play_loop gap_scene 3 100 [100 + 3 / 2, 103, 103 + 1 / 4, 104] [(''first'', [(5, 0)], ''#444444'')]
     = play_loop gap_scene 3 100 [103, 103 + 1 / 4, 104] [(''first'', [(5, 0)], ''#444444'')]"
proof -
  let ?c1 = "[(''first'', [(5 :: real, 0 :: real)], ''#444444'')]"
  let ?c2 = "?c1 @ [(''second'', [(0 :: real, 10 :: real)], ''#888888'')]"
  have f1: "play_shapes gap_scene (100 + 1 / 2 - 100) True [] = (Inr False, ?c1)"
    by (simp add: gap_scene_frame gap_scene_active)
  have s0: "play_scene gap_scene [100, 100 + 1 / 2, 100 + 3 / 2, 103, 103 + 1 / 4, 104]
      = play_loop gap_scene 3 100 [100 + 1 / 2, 100 + 3 / 2, 103, 103 + 1 / 4, 104] []"
    using C2_loop_exit_condition[where ?t0.0 = 100
        and ticks = "[100 + 1 / 2, 100 + 3 / 2, 103, 103 + 1 / 4, 104]"]
    by simp
  have s1: "play_loop gap_scene 3 100 [100 + 1 / 2, 100 + 3 / 2, 103, 103 + 1 / 4, 104] []
      = play_loop gap_scene 3 100 [100 + 3 / 2, 103, 103 + 1 / 4, 104] ?c1"
    using C2_loop_exit_condition[where shapes = gap_scene and tick = "100 + 1 / 2" and ?t0.0 = 100
        and calls = "[]" and fin = False and calls' = ?c1 and global_end = 3
        and ticks = "[100 + 3 / 2, 103, 103 + 1 / 4, 104]"] f1
    by (simp add: gap_scene_active)
  have s2: "play_loop gap_scene 3 100 [100 + 3 / 2, 103, 103 + 1 / 4, 104] ?c1
      = play_loop gap_scene 3 100 [103, 103 + 1 / 4, 104] ?c1"
    using C2_loop_exit_condition[where tick = "100 + 3 / 2" and ?t0.0 = 100 and calls = ?c1
        and ticks = "[103, 103 + 1 / 4, 104]"]
    by simp
  have s3: "play_loop gap_scene 3 100 [103, 103 + 1 / 4, 104] ?c1
      = play_loop gap_scene 3 100 [103 + 1 / 4, 104] ?c2"
    using C2_loop_exit_condition[where tick = 103 and ?t0.0 = 100 and calls = ?c1
        and ticks = "[103 + 1 / 4, 104]"]
    by simp
  have s4: "play_loop gap_scene 3 100 [103 + 1 / 4, 104] ?c2 = (Returned, ?c2)"
    using C2_loop_exit_condition[where tick = "103 + 1 / 4" and ?t0.0 = 100 and calls = ?c2
        and ticks = "[104]"]
    by simp
  show ?thesis using s0 s1 s2 s3 s4 by simp
qed

subsection \<open>The store\<close>

lemma heap_extends_refl: "heap_extends h h"
  by (simp add: heap_extends_def)

lemma heap_extends_trans: "heap_extends h h1 \<Longrightarrow> heap_extends h1 h2 \<Longrightarrow> heap_extends h h2"
  by (auto simp: heap_extends_def)

lemma heap_extends_cells: "heap_extends h h' \<Longrightarrow> a < next_addr h \<Longrightarrow> cells h' a = cells h a"
  by (simp add: heap_extends_def)

lemma heap_extends_less: "heap_extends h h' \<Longrightarrow> a < next_addr h \<Longrightarrow> a < next_addr h'"
  by (simp add: heap_extends_def)

lemma alloc_extends:
  assumes "alloc xs h = (a, h')"
  shows "heap_extends h h'" and "a = next_addr h" and "cells h' a = xs" and "a < next_addr h'"
  using assms by (auto simp: alloc_def heap_extends_def)

lemma fold_list_append:
  "fold (\<lambda>p. list_append out (f p)) ps h = h\<lparr>cells := (cells h)(out := cells h out @ map f ps)\<rparr>"
  by (induction ps arbitrary: h) (simp_all add: list_append_def)


lemma result_simps:
  "result_of h (Inl e) = Inl e"
  "result_of h (Inr (a, col)) = Inr (cells h a, col)"
  "result_allocated h (Inl e)"
  "result_allocated h (Inr (a, col)) = (a < next_addr h)"
  by (simp_all add: result_of_def result_allocated_def)

lemma Move_apply_h_sim:
  assumes "a < next_addr h" and "Move_apply_h dx dy a col t h = (r, h')"
  shows "heap_extends h h'" and "result_allocated h' r"
    and "Move_apply dx dy (cells h a) col t = result_of h' r"
  using assms
  by (auto simp: Move_apply_h_def Move_apply_def alloc_def heap_extends_def result_simps)

lemma Scale_apply_h_sim:
  assumes "a < next_addr h" and "Scale_apply_h f a col t h = (r, h')"
  shows "heap_extends h h'" and "result_allocated h' r"
    and "Scale_apply f (cells h a) col t = result_of h' r"
  using assms
  by (auto simp: Scale_apply_h_def Scale_apply_def alloc_def heap_extends_def Let_def
      result_simps split: if_splits)

lemma Rotate_apply_h_sim:
  assumes "a < next_addr h" and "Rotate_apply_h ang a col t h = (r, h')"
  shows "heap_extends h h'" and "result_allocated h' r"
    and "Rotate_apply ang (cells h a) col t = result_of h' r"
  using assms
  by (auto simp: Rotate_apply_h_def Rotate_apply_def alloc_def heap_extends_def Let_def
      fold_list_append split_def result_simps split: if_splits)

lemma Fade_apply_h_sim:
  assumes "a < next_addr h" and "Fade_apply_h b a col t h = (r, h')"
  shows "heap_extends h h'" and "result_allocated h' r"
    and "Fade_apply b (cells h a) col t = result_of h' r"
  using assms
  by (auto simp: Fade_apply_h_def Fade_apply_def heap_extends_def Let_def result_simps
      split: sum.splits)

lemma apply_step_h_sim:
  assumes "a < next_addr h" and "apply_step_h st a col t h = (r, h')"
  shows "heap_extends h h'" and "result_allocated h' r"
    and "apply_step st (cells h a) col t = result_of h' r"
proof -
  show "heap_extends h h'"
    using assms Move_apply_h_sim(1) Scale_apply_h_sim(1) Rotate_apply_h_sim(1) Fade_apply_h_sim(1)
    by (cases st) auto
  show "result_allocated h' r"
    using assms Move_apply_h_sim(2) Scale_apply_h_sim(2) Rotate_apply_h_sim(2) Fade_apply_h_sim(2)
    by (cases st) auto
  show "apply_step st (cells h a) col t = result_of h' r"
    using assms Move_apply_h_sim(3) Scale_apply_h_sim(3) Rotate_apply_h_sim(3) Fade_apply_h_sim(3)
    by (cases st) auto
qed

lemma walk_h_sim:
  assumes "a < next_addr h" and "walk_h pairs t cursor a col h = (r, h')"
  shows "heap_extends h h' \<and> result_allocated h' r
     \<and> walk pairs t cursor (cells h a) col = result_of h' r"
  using assms
proof (induction pairs arbitrary: cursor a col h)
  case Nil
  then show ?case by (auto simp: heap_extends_refl result_simps)
next
  case (Cons p pairs)
  obtain step d where p: "p = (step, d)" by (cases p)
  show ?case
  proof (cases "d \<le> 0")
    case True
    then show ?thesis using Cons p by simp
  next
    case False
    define lt where "lt = max 0 (min 1 ((t - cursor) / d))"
    obtain r1 h1 where s1: "apply_step_h step a col lt h = (r1, h1)"
      by (cases "apply_step_h step a col lt h")
    note sim = apply_step_h_sim[OF Cons.prems(1) s1]
    show ?thesis
    proof (cases r1)
      case (Inl e)
      then have "r = Inl e" "h' = h1"
        using Cons.prems(2) False p s1 by (simp_all add: lt_def[symmetric] Let_def)
      then show ?thesis
        using False p sim Inl by (simp add: lt_def[symmetric] Let_def result_simps)
    next
      case (Inr ac)
      obtain a1 col1 where ac: "ac = (a1, col1)" by (cases ac)
      from sim Inr ac have a1: "a1 < next_addr h1"
        and pure: "apply_step step (cells h a) col lt = Inr (cells h1 a1, col1)"
        by (simp_all add: result_simps)
      show ?thesis
      proof (cases "lt < 1")
        case True
        then have "r = Inr (a1, col1)" "h' = h1"
          using Cons.prems(2) False p s1 Inr ac by (simp_all add: lt_def[symmetric] Let_def)
        then show ?thesis
          using True False p sim(1) a1 pure by (simp add: lt_def[symmetric] Let_def result_simps)
      next
        case stay: False
        then have rest: "walk_h pairs t (cursor + d) a1 col1 h1 = (r, h')"
          using Cons.prems(2) False p s1 Inr ac by (simp add: lt_def[symmetric] Let_def)
        from Cons.IH[OF a1 rest] have
          ext: "heap_extends h1 h'" and al: "result_allocated h' r" and
          res: "walk pairs t (cursor + d) (cells h1 a1) col1 = result_of h' r"
          by simp_all
        have "walk (p # pairs) t cursor (cells h a) col
            = walk pairs t (cursor + d) (cells h1 a1) col1"
          using False p pure stay by (simp add: lt_def[symmetric] Let_def)
        then show ?thesis
          using res al heap_extends_trans[OF sim(1) ext] by simp
      qed
    qed
  qed
qed

lemma shape_of_extends:
  assumes "heap_extends h h'" and "obj_points (objects h sa) < next_addr h"
  shows "shape_of h' sa = shape_of h sa"
  using assms by (simp add: shape_of_def heap_extends_def)

lemma call_of_extends:
  assumes "heap_extends h h'" and "list_all (\<lambda>c. fst (snd c) < next_addr h) calls"
  shows "map (call_of h') calls = map (call_of h) calls"
  using assms by (auto simp: call_of_def heap_extends_def list_all_iff)

lemma calls_allocated_extends:
  assumes "heap_extends h h'" and "list_all (\<lambda>c. fst (snd c) < next_addr h) calls"
  shows "list_all (\<lambda>c. fst (snd c) < next_addr h') calls"
  using assms by (auto simp: heap_extends_def list_all_iff)

lemma scene_allocated_extends:
  assumes "heap_extends h h'" and "list_all (\<lambda>sa. obj_points (objects h sa) < next_addr h) scene"
  shows "list_all (\<lambda>sa. obj_points (objects h' sa) < next_addr h') scene"
    and "map (shape_of h') scene = map (shape_of h) scene"
  using assms by (auto simp: heap_extends_def list_all_iff shape_of_def)


lemma play_shapes_h_sim:
  assumes "list_all (\<lambda>sa. obj_points (objects h sa) < next_addr h) scene"
    and "list_all (\<lambda>c. fst (snd c) < next_addr h) calls"
    and "play_shapes_h scene now fin calls h = (r, calls', h')"
  shows "heap_extends h h' \<and> list_all (\<lambda>c. fst (snd c) < next_addr h') calls'
     \<and> play_shapes (map (shape_of h) scene) now fin (map (call_of h) calls)
         = (r, map (call_of h') calls')"
  using assms
proof (induction scene arbitrary: fin calls h)
  case Nil
  then show ?case by (simp add: heap_extends_refl)
next
  case (Cons sa rest)
  from Cons.prems(1) have pts: "obj_points (objects h sa) < next_addr h"
    and rest_ok: "list_all (\<lambda>sa. obj_points (objects h sa) < next_addr h) rest"
    by simp_all
  have fields: "animation (shape_of h sa) = obj_animation (objects h sa)"
    "points (shape_of h sa) = cells h (obj_points (objects h sa))"
    "color (shape_of h sa) = obj_color (objects h sa)"
    "shape_id (shape_of h sa) = obj_shape_id (objects h sa)"
    by (simp_all add: shape_of_def)
  show ?case
  proof (cases "obj_animation (objects h sa)")
    case None
    then have "play_shapes_h rest now fin calls h = (r, calls', h')"
      using Cons.prems(3) by simp
    from Cons.IH[OF rest_ok Cons.prems(2) this] show ?thesis
      using None fields by simp
  next
    case (Some anim)
    show ?thesis
    proof (cases "start_time anim \<le> now \<and> now \<le> end_time anim")
      case False
      then have "play_shapes_h rest now fin calls h = (r, calls', h')"
        using Cons.prems(3) Some by auto
      from Cons.IH[OF rest_ok Cons.prems(2) this] show ?thesis
        using False Some fields by auto
    next
      case True
      obtain r1 h1 where w: "walk_h (zip (steps anim) (durations anim)) (now - start_time anim) 0
          (obj_points (objects h sa)) (obj_color (objects h sa)) h = (r1, h1)"
        by (cases "walk_h (zip (steps anim) (durations anim)) (now - start_time anim) 0
          (obj_points (objects h sa)) (obj_color (objects h sa)) h")
      from walk_h_sim[OF pts w] have ext: "heap_extends h h1"
        and al: "result_allocated h1 r1"
        and res: "resolve (shape_of h sa) anim now = result_of h1 r1"
        by (simp_all add: resolve_def fields)
      show ?thesis
      proof (cases r1)
        case (Inl e)
        then have "r = Inl e" "calls' = calls" "h' = h1"
          using Cons.prems(3) Some True w by simp_all
        then show ?thesis
          using ext Inl res Some True fields
            call_of_extends[OF ext Cons.prems(2)] calls_allocated_extends[OF ext Cons.prems(2)]
          by (simp add: result_simps)
      next
        case (Inr ac)
        obtain a1 col1 where ac: "ac = (a1, col1)" by (cases ac)
        let ?calls1 = "calls @ [(obj_shape_id (objects h1 sa), a1, col1)]"
        have run: "play_shapes_h rest now False ?calls1 h1 = (r, calls', h')"
          using Cons.prems(3) Some True w Inr ac by simp
        have a1: "a1 < next_addr h1" using al Inr ac by (simp add: result_simps)
        have calls1_ok: "list_all (\<lambda>c. fst (snd c) < next_addr h1) ?calls1"
          using calls_allocated_extends[OF ext Cons.prems(2)] a1 by simp
        note ih = Cons.IH[OF scene_allocated_extends(1)[OF ext rest_ok] calls1_ok run]
        have obj: "objects h1 = objects h" using ext by (simp add: heap_extends_def)
        have "map (call_of h1) ?calls1
            = map (call_of h) calls @ [(obj_shape_id (objects h sa), cells h1 a1, col1)]"
          using call_of_extends[OF ext Cons.prems(2)] obj by (simp add: call_of_def)
        moreover have "play_shapes (map (shape_of h) (sa # rest)) now fin (map (call_of h) calls)
            = play_shapes (map (shape_of h) rest) now False
                (map (call_of h) calls @ [(obj_shape_id (objects h sa), cells h1 a1, col1)])"
          using Some True res Inr ac fields by (simp add: result_simps)
        ultimately have step: "play_shapes (map (shape_of h) (sa # rest)) now fin
              (map (call_of h) calls)
            = play_shapes (map (shape_of h1) rest) now False (map (call_of h1) ?calls1)"
          using scene_allocated_extends(2)[OF ext rest_ok] by (simp only:)
        from ih have ext': "heap_extends h1 h'"
          and ok': "list_all (\<lambda>c. fst (snd c) < next_addr h') calls'"
          and pure': "play_shapes (map (shape_of h1) rest) now False (map (call_of h1) ?calls1)
              = (r, map (call_of h') calls')"
          by blast+
        show ?thesis
        proof (intro conjI)
          show "heap_extends h h'" by (rule heap_extends_trans[OF ext ext'])
          show "list_all (\<lambda>c. fst (snd c) < next_addr h') calls'" by (rule ok')
          show "play_shapes (map (shape_of h) (sa # rest)) now fin (map (call_of h) calls)
              = (r, map (call_of h') calls')"
            unfolding step by (rule pure')
        qed
      qed
    qed
  qed
qed

lemma play_loop_h_sim:
  assumes "list_all (\<lambda>sa. obj_points (objects h sa) < next_addr h) scene"
    and "list_all (\<lambda>c. fst (snd c) < next_addr h) calls"
    and "play_loop_h scene global_end t0 ticks calls h = (st, calls', h')"
  shows "heap_extends h h'
     \<and> play_loop (map (shape_of h) scene) global_end t0 ticks (map (call_of h) calls)
         = (st, map (call_of h') calls')"
  using assms
proof (induction ticks arbitrary: calls h)
  case Nil
  then show ?case by (simp add: heap_extends_refl)
next
  case (Cons tick ticks)
  obtain r1 calls1 h1 where f: "play_shapes_h scene (tick - t0) True calls h = (r1, calls1, h1)"
    by (cases "play_shapes_h scene (tick - t0) True calls h") auto
  from play_shapes_h_sim[OF Cons.prems(1,2) f] have ext: "heap_extends h h1"
    and calls1_ok: "list_all (\<lambda>c. fst (snd c) < next_addr h1) calls1"
    and pure: "play_shapes (map (shape_of h) scene) (tick - t0) True (map (call_of h) calls)
         = (r1, map (call_of h1) calls1)"
    by simp_all
  show ?case
  proof (cases r1)
    case (Inl e)
    then show ?thesis using Cons.prems(3) f ext pure by (auto simp: Let_def)
  next
    case (Inr finished)
    show ?thesis
    proof (cases "finished \<and> global_end \<le> tick - t0")
      case True
      then show ?thesis using Cons.prems(3) f ext pure Inr by (auto simp: Let_def)
    next
      case False
      then have run: "play_loop_h scene global_end t0 ticks calls1 h1 = (st, calls', h')"
        using Cons.prems(3) f Inr by (auto simp: Let_def)
      note ih = Cons.IH[OF scene_allocated_extends(1)[OF ext Cons.prems(1)] calls1_ok run]
      have "play_loop (map (shape_of h) scene) global_end t0 (tick # ticks) (map (call_of h) calls)
          = play_loop (map (shape_of h) scene) global_end t0 ticks (map (call_of h1) calls1)"
        using pure Inr False by (auto simp: Let_def)
      then show ?thesis
        using ih scene_allocated_extends(2)[OF ext Cons.prems(1)] heap_extends_trans[OF ext]
        by auto
    qed
  qed
qed

lemma map_filter_shape_of:
  "List.map_filter animation (map (shape_of h) scene)
     = List.map_filter (\<lambda>s. obj_animation (objects h s)) scene"
  by (induction scene) (simp_all add: List.map_filter_simps shape_of_def split: option.splits)

lemma play_scene_h_sim:
  assumes "list_all (\<lambda>sa. obj_points (objects h sa) < next_addr h) scene"
    and "play_scene_h scene clock h = (st, calls', h')"
  shows "heap_extends h h'
     \<and> play_scene (map (shape_of h) scene) clock = (st, map (call_of h') calls')"
proof (cases "List.map_filter (\<lambda>s. obj_animation (objects h s)) scene = []")
  case True
  then show ?thesis
    using assms(2) by (auto simp: play_scene_h_def play_scene_def map_filter_shape_of
        heap_extends_refl)
next
  case False
  then obtain x xs where "List.map_filter (\<lambda>s. obj_animation (objects h s)) scene = x # xs"
    by (cases "List.map_filter (\<lambda>s. obj_animation (objects h s)) scene") auto
  then obtain ge where ge: "py_max (map end_time
      (List.map_filter (\<lambda>s. obj_animation (objects h s)) scene)) = Inr ge"
    by (simp add: py_max_def)
  show ?thesis
  proof (cases clock)
    case Nil
    then show ?thesis
      using assms(2) False ge
      by (auto simp: play_scene_h_def play_scene_def map_filter_shape_of heap_extends_refl)
  next
    case (Cons t0 ticks)
    then have "play_loop_h scene ge t0 ticks [] h = (st, calls', h')"
      using assms(2) False ge by (simp add: play_scene_h_def)
    from play_loop_h_sim[OF assms(1) _ this] show ?thesis
      using False ge Cons by (simp add: play_scene_def map_filter_shape_of)
  qed
qed


lemma apply_step_h_origin:
  assumes "apply_step_h st a col t h = (Inr (a', col'), h')"
  shows "a' = a \<or> next_addr h \<le> a'"
  using assms
  by (cases st)
    (auto simp: Move_apply_h_def Rotate_apply_h_def Scale_apply_h_def Fade_apply_h_def
      alloc_def Let_def split: if_splits sum.splits)

lemma walk_h_origin:
  assumes "a < next_addr h" and "walk_h pairs t cursor a col h = (Inr (a', col'), h')"
  shows "a' = a \<or> next_addr h \<le> a'"
  using assms
proof (induction pairs arbitrary: cursor a col h)
  case Nil
  then show ?case by simp
next
  case (Cons p pairs)
  obtain step d where p: "p = (step, d)" by (cases p)
  show ?case
  proof (cases "d \<le> 0")
    case True
    then show ?thesis using Cons p by simp
  next
    case False
    define lt where "lt = max 0 (min 1 ((t - cursor) / d))"
    obtain r1 h1 where s1: "apply_step_h step a col lt h = (r1, h1)"
      by (cases "apply_step_h step a col lt h")
    note sim = apply_step_h_sim[OF Cons.prems(1) s1]
    show ?thesis
    proof (cases r1)
      case (Inl e)
      then show ?thesis
        using Cons.prems(2) False p s1 by (simp add: lt_def[symmetric] Let_def)
    next
      case (Inr ac)
      obtain a1 col1 where ac: "ac = (a1, col1)" by (cases ac)
      have o1: "a1 = a \<or> next_addr h \<le> a1"
        using apply_step_h_origin[of step a col lt h a1 col1 h1] s1 Inr ac by simp
      have a1: "a1 < next_addr h1" using sim(2) Inr ac by (simp add: result_simps)
      have mono: "next_addr h \<le> next_addr h1" using sim(1) by (simp add: heap_extends_def)
      show ?thesis
      proof (cases "lt < 1")
        case True
        then have "a' = a1"
          using Cons.prems(2) False p s1 Inr ac by (simp add: lt_def[symmetric] Let_def)
        then show ?thesis using o1 by simp
      next
        case stay: False
        then have rest: "walk_h pairs t (cursor + d) a1 col1 h1 = (Inr (a', col'), h')"
          using Cons.prems(2) False p s1 Inr ac by (simp add: lt_def[symmetric] Let_def)
        from Cons.IH[OF a1 rest] have "a' = a1 \<or> next_addr h1 \<le> a'" .
        then show ?thesis using o1 mono by auto
      qed
    qed
  qed
qed

lemma play_shapes_h_origin:
  assumes "heap_extends h0 h"
    and "list_all (\<lambda>sa. obj_points (objects h0 sa) < next_addr h0) scene"
    and "set sub \<subseteq> set scene"
    and "list_all (own_or_new h0 scene) calls"
    and "play_shapes_h sub now fin calls h = (r, calls', h')"
  shows "list_all (own_or_new h0 scene) calls'"
  using assms(1,3,4,5)
proof (induction sub arbitrary: fin calls h)
  case Nil
  then show ?case by simp
next
  case (Cons sa rest)
  from Cons.prems(2) have sa: "sa \<in> set scene" and rest: "set rest \<subseteq> set scene" by simp_all
  have obj: "objects h = objects h0" using Cons.prems(1) by (simp add: heap_extends_def)
  have pts0: "obj_points (objects h0 sa) < next_addr h0"
    using assms(2) sa by (simp add: list_all_iff)
  then have pts: "obj_points (objects h sa) < next_addr h"
    using Cons.prems(1) obj by (simp add: heap_extends_def)
  show ?case
  proof (cases "obj_animation (objects h sa)")
    case None
    then have "play_shapes_h rest now fin calls h = (r, calls', h')"
      using Cons.prems(4) by simp
    from Cons.IH[OF Cons.prems(1) rest Cons.prems(3) this] show ?thesis .
  next
    case (Some anim)
    show ?thesis
    proof (cases "start_time anim \<le> now \<and> now \<le> end_time anim")
      case False
      then have "play_shapes_h rest now fin calls h = (r, calls', h')"
        using Cons.prems(4) Some by auto
      from Cons.IH[OF Cons.prems(1) rest Cons.prems(3) this] show ?thesis .
    next
      case True
      obtain r1 h1 where w: "walk_h (zip (steps anim) (durations anim)) (now - start_time anim) 0
          (obj_points (objects h sa)) (obj_color (objects h sa)) h = (r1, h1)"
        by (cases "walk_h (zip (steps anim) (durations anim)) (now - start_time anim) 0
          (obj_points (objects h sa)) (obj_color (objects h sa)) h")
      from walk_h_sim[OF pts w] have ext: "heap_extends h h1" by simp
      show ?thesis
      proof (cases r1)
        case (Inl e)
        then have "calls' = calls" using Cons.prems(4) Some True w by simp
        then show ?thesis using Cons.prems(3) by simp
      next
        case (Inr ac)
        obtain a1 col1 where ac: "ac = (a1, col1)" by (cases ac)
        let ?calls1 = "calls @ [(obj_shape_id (objects h1 sa), a1, col1)]"
        have run: "play_shapes_h rest now False ?calls1 h1 = (r, calls', h')"
          using Cons.prems(4) Some True w Inr ac by simp
        have "a1 = obj_points (objects h sa) \<or> next_addr h \<le> a1"
          using walk_h_origin[OF pts] w Inr ac by simp
        moreover have "next_addr h0 \<le> next_addr h"
          using Cons.prems(1) by (simp add: heap_extends_def)
        ultimately have "own_or_new h0 scene (obj_shape_id (objects h1 sa), a1, col1)"
          using sa obj by (auto simp: own_or_new_def)
        then have ok1: "list_all (own_or_new h0 scene) ?calls1"
          using Cons.prems(3) by simp
        from Cons.IH[OF heap_extends_trans[OF Cons.prems(1) ext] rest ok1 run]
        show ?thesis .
      qed
    qed
  qed
qed

lemma play_shapes_h_extends:
  assumes "list_all (\<lambda>sa. obj_points (objects h sa) < next_addr h) scene"
    and "play_shapes_h scene now fin calls h = (r, calls', h')"
  shows "heap_extends h h'"
  using assms
proof (induction scene arbitrary: fin calls h)
  case Nil
  then show ?case by (simp add: heap_extends_refl)
next
  case (Cons sa rest)
  from Cons.prems(1) have pts: "obj_points (objects h sa) < next_addr h"
    and rest_ok: "list_all (\<lambda>sa. obj_points (objects h sa) < next_addr h) rest"
    by simp_all
  show ?case
  proof (cases "obj_animation (objects h sa)")
    case None
    then have "play_shapes_h rest now fin calls h = (r, calls', h')"
      using Cons.prems(2) by simp
    from Cons.IH[OF rest_ok this] show ?thesis .
  next
    case (Some anim)
    show ?thesis
    proof (cases "start_time anim \<le> now \<and> now \<le> end_time anim")
      case False
      then have "play_shapes_h rest now fin calls h = (r, calls', h')"
        using Cons.prems(2) Some by auto
      from Cons.IH[OF rest_ok this] show ?thesis .
    next
      case True
      obtain r1 h1 where w: "walk_h (zip (steps anim) (durations anim)) (now - start_time anim) 0
          (obj_points (objects h sa)) (obj_color (objects h sa)) h = (r1, h1)"
        by (cases "walk_h (zip (steps anim) (durations anim)) (now - start_time anim) 0
          (obj_points (objects h sa)) (obj_color (objects h sa)) h")
      from walk_h_sim[OF pts w] have ext: "heap_extends h h1" by simp
      show ?thesis
      proof (cases r1)
        case (Inl e)
        then have "h' = h1" using Cons.prems(2) Some True w by simp
        then show ?thesis using ext by simp
      next
        case (Inr ac)
        obtain a1 col1 where ac: "ac = (a1, col1)" by (cases ac)
        have run: "play_shapes_h rest now False
            (calls @ [(obj_shape_id (objects h1 sa), a1, col1)]) h1 = (r, calls', h')"
          using Cons.prems(2) Some True w Inr ac by simp
        from Cons.IH[OF scene_allocated_extends(1)[OF ext rest_ok] run]
        show ?thesis using heap_extends_trans[OF ext] by blast
      qed
    qed
  qed
qed

lemma play_loop_h_origin:
  assumes "heap_extends h0 h"
    and "list_all (\<lambda>sa. obj_points (objects h0 sa) < next_addr h0) scene"
    and "list_all (own_or_new h0 scene) calls"
    and "play_loop_h scene global_end t0 ticks calls h = (st, calls', h')"
  shows "list_all (own_or_new h0 scene) calls'"
  using assms(1,3,4)
proof (induction ticks arbitrary: calls h)
  case Nil
  then show ?case by simp
next
  case (Cons tick ticks)
  obtain r1 calls1 h1 where f: "play_shapes_h scene (tick - t0) True calls h = (r1, calls1, h1)"
    by (cases "play_shapes_h scene (tick - t0) True calls h") auto
  have ok1: "list_all (own_or_new h0 scene) calls1"
    using play_shapes_h_origin[OF Cons.prems(1) assms(2) _ Cons.prems(2) f] by simp
  have ext: "heap_extends h h1"
    using play_shapes_h_extends[OF scene_allocated_extends(1)[OF Cons.prems(1) assms(2)] f] .
  show ?case
  proof (cases r1)
    case (Inl e)
    then have "calls' = calls1" using Cons.prems(3) f by (simp add: Let_def)
    then show ?thesis using ok1 by simp
  next
    case (Inr finished)
    show ?thesis
    proof (cases "finished \<and> global_end \<le> tick - t0")
      case True
      then have "calls' = calls1" using Cons.prems(3) f Inr by (auto simp: Let_def)
      then show ?thesis using ok1 by simp
    next
      case False
      then have run: "play_loop_h scene global_end t0 ticks calls1 h1 = (st, calls', h')"
        using Cons.prems(3) f Inr by (auto simp: Let_def)
      from Cons.IH[OF heap_extends_trans[OF Cons.prems(1) ext] ok1 run] show ?thesis .
    qed
  qed
qed

lemma play_scene_h_origin:
  assumes "list_all (\<lambda>sa. obj_points (objects h sa) < next_addr h) scene"
    and "play_scene_h scene clock h = (st, calls', h')"
  shows "list_all (own_or_new h scene) calls'"
proof (cases "play_scene_h scene clock h = (st, [], h)")
  case True
  then show ?thesis using assms(2) by simp
next
  case False
  then obtain ge t0 ticks where "play_loop_h scene ge t0 ticks [] h = (st, calls', h')"
    using assms(2)
    by (auto simp: play_scene_h_def Let_def split: if_splits sum.splits list.splits)
  from play_loop_h_origin[OF heap_extends_refl assms(1) _ this] show ?thesis by simp
qed

text \<open>
  Claim C9: \<open>play_scene\<close> writes to no shape. Whatever the clock reads and however the
  playback ends (it returns, raises, or is still polling), the store it leaves has the
  \<open>Shape\<close> objects it had, and every list that was in use holds the points it held: the
  only lists written are the ones the steps have just created. So every shape of the
  scene reads as before: same identity, base points, base colour and timeline. The calls
  the renderer received, read in the final store, are the calls of the first model, and
  the list of each call is a list created during the playback or, when no step built a
  new geometry, the base list of a shape, handed over as it is.
\<close>

theorem C9_play_scene_writes_no_shape:
  "list_all (\<lambda>sa. obj_points (objects h sa) < next_addr h) scene
   \<and> play_scene_h scene clock h = (st, calls', h') \<longrightarrow>
     objects h' = objects h
     \<and> (\<forall>a. a < next_addr h \<longrightarrow> cells h' a = cells h a)
     \<and> map (shape_of h') scene = map (shape_of h) scene
     \<and> play_scene (map (shape_of h) scene) clock = (st, map (call_of h') calls')
     \<and> list_all (own_or_new h scene) calls'"
proof
  assume a: "list_all (\<lambda>sa. obj_points (objects h sa) < next_addr h) scene
   \<and> play_scene_h scene clock h = (st, calls', h')"
  then have wf: "list_all (\<lambda>sa. obj_points (objects h sa) < next_addr h) scene"
    and run: "play_scene_h scene clock h = (st, calls', h')"
    by simp_all
  from play_scene_h_sim[OF wf run] have ext: "heap_extends h h'"
    and pure: "play_scene (map (shape_of h) scene) clock = (st, map (call_of h') calls')"
    by simp_all
  from ext have "objects h' = objects h" "\<forall>a. a < next_addr h \<longrightarrow> cells h' a = cells h a"
    by (simp_all add: heap_extends_def)
  with pure scene_allocated_extends(2)[OF ext wf] play_scene_h_origin[OF wf run]
  show "objects h' = objects h
     \<and> (\<forall>a. a < next_addr h \<longrightarrow> cells h' a = cells h a)
     \<and> map (shape_of h') scene = map (shape_of h) scene
     \<and> play_scene (map (shape_of h) scene) clock = (st, map (call_of h') calls')
     \<and> list_all (own_or_new h scene) calls'"
    by simp
qed

lemma demo_run:
  "play_scene_h [0, 1] [100, 100 + 1 / 2, 102] demo_heap =
     (Returned, [(''segment'', 2, ''#ffffff''), (''dot'', 1, ''#7f7f7f'')],
      demo_heap\<lparr>cells := (cells demo_heap)(2 := [(5, 0), (15, 0)]), next_addr := 3\<rparr>)"
  by (simp add: play_scene_h_def demo_heap_def demo_objects_def demo_cells_def
      List.map_filter_simps py_max_def end_time_def duration_def Move_apply_h_def alloc_def
      Fade_apply_h_def py_int16_def is_space_def hex_digit_def lerp_def py_trunc_def
      format_02x_def hex_char_def Let_def)

text \<open>
  Claim C9, witness: half a second into the playback the segment is rendered from a new
  list at address 2 and the dot from its own list at address 1, which \<open>Fade\<close> handed
  back; the lists at 0 and 1 and both shapes are as they were.
\<close>

theorem C9_play_scene_writes_no_shape_witness:
  "play_scene_h [0, 1] [100, 100 + 1 / 2, 102] demo_heap =
     (Returned, [(''segment'', 2, ''#ffffff''), (''dot'', 1, ''#7f7f7f'')],
      demo_heap\<lparr>cells := (cells demo_heap)(2 := [(5, 0), (15, 0)]), next_addr := 3\<rparr>)
   \<and> map (shape_of (demo_heap\<lparr>cells := (cells demo_heap)(2 := [(5, 0), (15, 0)]),
                                next_addr := 3\<rparr>)) [0, 1]
       = map (shape_of demo_heap) [0, 1]
   \<and> play_scene (map (shape_of demo_heap) [0, 1]) [100, 100 + 1 / 2, 102]
       = (Returned, [(''segment'', [(5, 0), (15, 0)], ''#ffffff''),
                     (''dot'', [(1, 1)], ''#7f7f7f'')])"
proof -
  have wf: "list_all (\<lambda>sa. obj_points (objects demo_heap sa) < next_addr demo_heap) [0, 1]"
    by (simp add: demo_heap_def demo_objects_def)
  from C9_play_scene_writes_no_shape[where h = demo_heap and scene = "[0, 1]"
      and clock = "[100, 100 + 1 / 2, 102]" and st = Returned
      and calls' = "[(''segment'', 2, ''#ffffff''), (''dot'', 1, ''#7f7f7f'')]"
      and h' = "demo_heap\<lparr>cells := (cells demo_heap)(2 := [(5, 0), (15, 0)]), next_addr := 3\<rparr>"]
    wf demo_run
  have "map (shape_of (demo_heap\<lparr>cells := (cells demo_heap)(2 := [(5, 0), (15, 0)]),
                                next_addr := 3\<rparr>)) [0, 1]
       = map (shape_of demo_heap) [0, 1]"
    and "play_scene (map (shape_of demo_heap) [0, 1]) [100, 100 + 1 / 2, 102]
       = (Returned, map (call_of (demo_heap\<lparr>cells := (cells demo_heap)(2 := [(5, 0), (15, 0)]),
                                next_addr := 3\<rparr>))
                     [(''segment'', 2, ''#ffffff''), (''dot'', 1, ''#7f7f7f'')])"
    by blast+
  then show ?thesis
    using demo_run by (simp add: call_of_def demo_heap_def demo_cells_def)
qed

end
